theory Spec2Isabelle
  imports Complex_Main "HOL-Library.Log_Nat" "HOL-Library.Stream"
begin

section \<open>JavaScript numbers\<close>

text \<open>
  Every number of \<^verbatim>\<open>script.js\<close> is an IEEE 754 binary64 value. A finite value is
  kept as the rational it denotes; the negative zero, the two infinities and NaN are
  constructors of their own. \<open>Fin 0\<close> is the positive zero. Each arithmetic operator
  computes the exact rational result and rounds it to the nearest binary64 value, ties to
  even (\<open>rnd\<close>), as ECMAScript prescribes.
\<close>

datatype number = NaN | PInf | NInf | NZero | Fin rat

definition pow2 :: "int \<Rightarrow> rat" where
  "pow2 e = 2 powi e"

text \<open>The exponent \<open>e\<close> with \<open>2^e \<le> x < 2^(e+1)\<close>, for \<open>x > 0\<close>.\<close>

definition ilog2 :: "rat \<Rightarrow> int" where
  "ilog2 x = (if 1 \<le> x then bitlen \<lfloor>x\<rfloor> - 1 else - bitlen (\<lceil>1 / x\<rceil> - 1))"

definition round_even :: "rat \<Rightarrow> int" where
  "round_even x = (let f = \<lfloor>x\<rfloor>; r = x - of_int f in
     if r < 1 / 2 then f else if 1 / 2 < r then f + 1 else if even f then f else f + 1)"

text \<open>
  The exponent of the unit in the last place at \<open>x\<close>: 53 significant bits, and the
  subnormal spacing \<open>2^-1074\<close> below \<open>2^-1022\<close>.
\<close>

definition quantum :: "rat \<Rightarrow> int" where
  "quantum x = max (ilog2 \<bar>x\<bar>) (- 1022) - 52"

definition rval :: "rat \<Rightarrow> rat" where
  "rval x = of_int (round_even (x / pow2 (quantum x))) * pow2 (quantum x)"

text \<open>
  Rounding a rational to a number: overflow gives an infinity, and a negative value that
  rounds to zero gives the negative zero.
\<close>

definition rnd :: "rat \<Rightarrow> number" where
  "rnd x = (let y = rval x in
     if pow2 1024 \<le> y then PInf else if y \<le> - pow2 1024 then NInf
     else if y = 0 \<and> x < 0 then NZero else Fin y)"

fun is_neg :: "number \<Rightarrow> bool" where
  "is_neg NInf = True"
| "is_neg NZero = True"
| "is_neg (Fin q) = (q < 0)"
| "is_neg _ = False"

fun is_inf :: "number \<Rightarrow> bool" where
  "is_inf PInf = True"
| "is_inf NInf = True"
| "is_inf _ = False"

fun is_zero :: "number \<Rightarrow> bool" where
  "is_zero NZero = True"
| "is_zero (Fin q) = (q = 0)"
| "is_zero _ = False"

fun val :: "number \<Rightarrow> rat" where
  "val (Fin q) = q"
| "val _ = 0"

definition zero_of :: "bool \<Rightarrow> number" where
  "zero_of neg = (if neg then NZero else Fin 0)"

definition inf_of :: "bool \<Rightarrow> number" where
  "inf_of neg = (if neg then NInf else PInf)"

text \<open>The operators \<^verbatim>\<open>+\<close>, unary \<^verbatim>\<open>-\<close>, \<^verbatim>\<open>-\<close>, \<^verbatim>\<open>*\<close>, \<^verbatim>\<open>/\<close> and \<^verbatim>\<open>%\<close>.\<close>

definition num_add :: "number \<Rightarrow> number \<Rightarrow> number" where
  "num_add a b =
     (if a = NaN \<or> b = NaN then NaN
      else if is_inf a then (if is_inf b \<and> a \<noteq> b then NaN else a)
      else if is_inf b then b
      else if a = NZero \<and> b = NZero then NZero
      else rnd (val a + val b))"

fun num_neg :: "number \<Rightarrow> number" where
  "num_neg NaN = NaN"
| "num_neg PInf = NInf"
| "num_neg NInf = PInf"
| "num_neg NZero = Fin 0"
| "num_neg (Fin q) = (if q = 0 then NZero else Fin (- q))"

definition num_sub :: "number \<Rightarrow> number \<Rightarrow> number" where
  "num_sub a b = num_add a (num_neg b)"

definition num_mul :: "number \<Rightarrow> number \<Rightarrow> number" where
  "num_mul a b =
     (if a = NaN \<or> b = NaN then NaN
      else if is_inf a \<or> is_inf b then
        (if is_zero a \<or> is_zero b then NaN else inf_of (is_neg a \<noteq> is_neg b))
      else if is_zero a \<or> is_zero b then zero_of (is_neg a \<noteq> is_neg b)
      else rnd (val a * val b))"

definition num_div :: "number \<Rightarrow> number \<Rightarrow> number" where
  "num_div a b =
     (if a = NaN \<or> b = NaN then NaN
      else if is_inf a then (if is_inf b then NaN else inf_of (is_neg a \<noteq> is_neg b))
      else if is_inf b then zero_of (is_neg a \<noteq> is_neg b)
      else if is_zero b then (if is_zero a then NaN else inf_of (is_neg a \<noteq> is_neg b))
      else if is_zero a then zero_of (is_neg a \<noteq> is_neg b)
      else rnd (val a / val b))"

definition trunc :: "rat \<Rightarrow> int" where
  "trunc q = (if 0 \<le> q then \<lfloor>q\<rfloor> else \<lceil>q\<rceil>)"

text \<open>
  The remainder takes the sign of the dividend: \<open>n - d * q\<close> with \<open>q\<close> the quotient
  truncated towards zero.
\<close>

definition num_rem :: "number \<Rightarrow> number \<Rightarrow> number" where
  "num_rem n d =
     (if n = NaN \<or> d = NaN \<or> is_inf n \<or> is_zero d then NaN
      else if is_inf d \<or> is_zero n then n
      else (let r = val n - val d * of_int (trunc (val n / val d))
            in if r = 0 then zero_of (is_neg n) else rnd r))"

text \<open>The comparisons \<^verbatim>\<open><\<close>, \<^verbatim>\<open>===\<close> and \<^verbatim>\<open><=\<close>: false on NaN, and the two zeros are equal.\<close>

fun num_lt :: "number \<Rightarrow> number \<Rightarrow> bool" where
  "num_lt NaN _ = False"
| "num_lt _ NaN = False"
| "num_lt PInf _ = False"
| "num_lt _ NInf = False"
| "num_lt _ PInf = True"
| "num_lt NInf _ = True"
| "num_lt a b = (val a < val b)"

fun num_eq :: "number \<Rightarrow> number \<Rightarrow> bool" where
  "num_eq NaN _ = False"
| "num_eq _ NaN = False"
| "num_eq PInf b = (b = PInf)"
| "num_eq NInf b = (b = NInf)"
| "num_eq a PInf = False"
| "num_eq a NInf = False"
| "num_eq a b = (val a = val b)"

definition num_le :: "number \<Rightarrow> number \<Rightarrow> bool" where
  "num_le a b = (num_lt a b \<or> num_eq a b)"

fun Math_abs :: "number \<Rightarrow> number" where
  "Math_abs NaN = NaN"
| "Math_abs PInf = PInf"
| "Math_abs NInf = PInf"
| "Math_abs NZero = Fin 0"
| "Math_abs (Fin q) = Fin \<bar>q\<bar>"

text \<open>
  \<^verbatim>\<open>Math.round\<close> is the integer nearest to its argument, ties towards plus infinity;
  a negative argument not below \<open>-1/2\<close> gives the negative zero.
\<close>

fun Math_round :: "number \<Rightarrow> number" where
  "Math_round (Fin q) =
     (let n = \<lfloor>q + 1 / 2\<rfloor> in if n = 0 \<and> q < 0 then NZero else Fin (of_int n))"
| "Math_round x = x"

fun Math_floor :: "number \<Rightarrow> number" where
  "Math_floor (Fin q) = Fin (of_int \<lfloor>q\<rfloor>)"
| "Math_floor x = x"

definition max_step :: "number \<Rightarrow> number \<Rightarrow> number" where
  "max_step highest n =
     (if num_lt highest n \<or> (n = Fin 0 \<and> highest = NZero) then n else highest)"

definition Math_max :: "number list \<Rightarrow> number" where
  "Math_max xs = (if NaN \<in> set xs then NaN else foldl max_step NInf xs)"

definition min_step :: "number \<Rightarrow> number \<Rightarrow> number" where
  "min_step lowest n =
     (if num_lt n lowest \<or> (n = NZero \<and> lowest = Fin 0) then n else lowest)"

definition Math_min :: "number list \<Rightarrow> number" where
  "Math_min xs = (if NaN \<in> set xs then NaN else foldl min_step PInf xs)"

text \<open>The numbers that are neither NaN nor infinite.\<close>

fun finite_num :: "number \<Rightarrow> bool" where
  "finite_num NZero = True"
| "finite_num (Fin q) = True"
| "finite_num _ = False"

text \<open>A loop counter or an index, as the number it is.\<close>

definition num :: "nat \<Rightarrow> number" where
  "num n = Fin (of_nat n)"

section \<open>JavaScript strings\<close>

text \<open>
  A string is the list of its UTF-16 code units. \<open>str\<close> embeds an ASCII literal.
\<close>

type_synonym jsstring = "nat list"

definition str :: "string \<Rightarrow> jsstring" where
  "str s = map of_char s"

text \<open>The code units that \<^verbatim>\<open>trim\<close> and \<^verbatim>\<open>parseInt\<close> skip: white space and line terminators.\<close>

definition is_ws :: "nat \<Rightarrow> bool" where
  "is_ws c = (c \<in> {9, 10, 11, 12, 13, 32, 160, 5760, 8232, 8233, 8239, 8287, 12288, 65279}
               \<or> (8192 \<le> c \<and> c \<le> 8202))"

definition trim :: "jsstring \<Rightarrow> jsstring" where
  "trim s = rev (dropWhile is_ws (rev (dropWhile is_ws s)))"

text \<open>\<^verbatim>\<open>hex.replace(/^#/, "")\<close>: one leading \<^verbatim>\<open>#\<close> (code unit 35) is removed.\<close>

fun replace_leading_hash :: "jsstring \<Rightarrow> jsstring" where
  "replace_leading_hash (c # cs) = (if c = 35 then cs else c # cs)"
| "replace_leading_hash [] = []"

definition slice :: "nat \<Rightarrow> nat \<Rightarrow> jsstring \<Rightarrow> jsstring" where
  "slice a b s = take (b - a) (drop a s)"

definition padStart :: "nat \<Rightarrow> nat \<Rightarrow> jsstring \<Rightarrow> jsstring" where
  "padStart n c s = replicate (n - length s) c @ s"

definition is_hex :: "nat \<Rightarrow> bool" where
  "is_hex c = ((48 \<le> c \<and> c \<le> 57) \<or> (97 \<le> c \<and> c \<le> 102) \<or> (65 \<le> c \<and> c \<le> 70))"

definition hex_val :: "nat \<Rightarrow> nat" where
  "hex_val c = (if c \<le> 57 then c - 48 else if 97 \<le> c then c - 87 else c - 55)"

definition hex_value :: "jsstring \<Rightarrow> nat" where
  "hex_value ds = foldl (\<lambda>a c. 16 * a + hex_val c) 0 ds"

fun strip_sign :: "jsstring \<Rightarrow> bool \<times> jsstring" where
  "strip_sign (c # cs) =
     (if c = 45 then (True, cs) else if c = 43 then (False, cs) else (False, c # cs))"
| "strip_sign [] = (False, [])"

fun strip_0x :: "jsstring \<Rightarrow> jsstring" where
  "strip_0x (a # b # cs) = (if a = 48 \<and> (b = 120 \<or> b = 88) then cs else a # b # cs)"
| "strip_0x s = s"

text \<open>
  \<^verbatim>\<open>parseInt(s, 16)\<close>: leading white space, a sign and a \<^verbatim>\<open>0x\<close> prefix are skipped,
  then the longest run of hexadecimal digits is read; an empty run gives NaN, and what
  follows the run is ignored.
\<close>

definition parseInt16 :: "jsstring \<Rightarrow> number" where
  "parseInt16 s =
     (case strip_sign (dropWhile is_ws s) of (neg, s2) \<Rightarrow>
        (let z = takeWhile is_hex (strip_0x s2) in
         if z = [] then NaN
         else if hex_value z = 0 then zero_of neg
         else rnd ((if neg then - 1 else 1) * of_nat (hex_value z))))"

function to_digits :: "nat \<Rightarrow> nat \<Rightarrow> nat list" where
  "to_digits b n = (if b < 2 \<or> n < b then [n] else to_digits b (n div b) @ [n mod b])"
  by pat_completeness auto
termination
  by (relation "measure snd") auto

definition digit_char :: "nat \<Rightarrow> nat" where
  "digit_char d = (if d < 10 then 48 + d else 87 + d)"

text \<open>\<^verbatim>\<open>String(n)\<close> of a counter: its decimal digits.\<close>

definition String_nat :: "nat \<Rightarrow> jsstring" where
  "String_nat n = map digit_char (to_digits 10 n)"

text \<open>
  \<^verbatim>\<open>n.toString(16)\<close>. Every argument in this program is a result of
  \<^verbatim>\<open>Math.round\<close>, so it is integral, infinite or NaN; the digits written for a finite
  value are those of its integral part.
\<close>

fun toString16 :: "number \<Rightarrow> jsstring" where
  "toString16 NaN = str ''NaN''"
| "toString16 PInf = str ''Infinity''"
| "toString16 NInf = str ''-Infinity''"
| "toString16 NZero = str ''0''"
| "toString16 (Fin q) =
     (if q < 0 then 45 # map digit_char (to_digits 16 (nat \<lfloor>- q\<rfloor>))
      else map digit_char (to_digits 16 (nat \<lfloor>q\<rfloor>)))"

section \<open>The colour engine\<close>

definition TILE_COUNT :: nat where
  "TILE_COUNT = 60"

definition START_HEX :: jsstring where
  "START_HEX = str ''#3a3b23''"

definition MID_HEX :: jsstring where
  "MID_HEX = str ''#736a46''"

definition END_HEX :: jsstring where
  "END_HEX = str ''#d4c7a6''"

definition MID_INDEX :: number where
  "MID_INDEX = Math_round (num_div (num_sub (num TILE_COUNT) (Fin 1)) (Fin 2))"

definition INTERESTS :: "jsstring list" where
  "INTERESTS = [str ''Architecture'', str ''Photography'', str ''3D visualisation'',
     str ''Fashion'', str ''Sport'', str ''Music'', str ''Graphic design'',
     str ''Interior design'']"

definition toHex :: "number \<Rightarrow> jsstring" where
  "toHex n = padStart 2 48 (toString16 n)"

text \<open>
  The three channels of \<^verbatim>\<open>hslToHex\<close> after \<open>m\<close> is added and the result rounded,
  before they are formatted.
\<close>

definition hsl_channels :: "number \<Rightarrow> number \<Rightarrow> number \<Rightarrow> number \<times> number \<times> number" where
  "hsl_channels h s0 l0 =
     (let s = num_div s0 (Fin 100);
          l = num_div l0 (Fin 100);
          c = num_mul (num_sub (Fin 1) (Math_abs (num_sub (num_mul (Fin 2) l) (Fin 1)))) s;
          hh = num_div h (Fin 60);
          x = num_mul c (num_sub (Fin 1) (Math_abs (num_sub (num_rem hh (Fin 2)) (Fin 1))));
          rgb = (if num_le (Fin 0) hh \<and> num_lt hh (Fin 1) then (c, x, Fin 0)
                 else if num_le (Fin 1) hh \<and> num_lt hh (Fin 2) then (x, c, Fin 0)
                 else if num_le (Fin 2) hh \<and> num_lt hh (Fin 3) then (Fin 0, c, x)
                 else if num_le (Fin 3) hh \<and> num_lt hh (Fin 4) then (Fin 0, x, c)
                 else if num_le (Fin 4) hh \<and> num_lt hh (Fin 5) then (x, Fin 0, c)
                 else if num_le (Fin 5) hh \<and> num_lt hh (Fin 6) then (c, Fin 0, x)
                 else (Fin 0, Fin 0, Fin 0));
          m = num_sub l (num_div c (Fin 2))
      in case rgb of (r, g, b) \<Rightarrow>
           (Math_round (num_mul (num_add r m) (Fin 255)),
            Math_round (num_mul (num_add g m) (Fin 255)),
            Math_round (num_mul (num_add b m) (Fin 255))))"

definition hslToHex :: "number \<Rightarrow> number \<Rightarrow> number \<Rightarrow> jsstring" where
  "hslToHex h s l =
     (case hsl_channels h s l of (r, g, b) \<Rightarrow> 35 # toHex r @ toHex g @ toHex b)"

datatype error = Error jsstring

record rgb =
  rgb_r :: number
  rgb_g :: number
  rgb_b :: number

definition hexToRgb :: "jsstring \<Rightarrow> error + rgb" where
  "hexToRgb hex =
     (let clean = trim (replace_leading_hash hex) in
      if length clean \<noteq> 6 then Inl (Error (str ''Expected 6-digit hex, got: '' @ hex))
      else Inr \<lparr>rgb_r = parseInt16 (slice 0 2 clean),
                rgb_g = parseInt16 (slice 2 4 clean),
                rgb_b = parseInt16 (slice 4 6 clean)\<rparr>)"

record hsl =
  hsl_h :: number
  hsl_s :: number
  hsl_l :: number

definition rgbToHsl :: "number \<Rightarrow> number \<Rightarrow> number \<Rightarrow> hsl" where
  "rgbToHsl r0 g0 b0 =
     (let r = num_div r0 (Fin 255);
          g = num_div g0 (Fin 255);
          b = num_div b0 (Fin 255);
          mx = Math_max [r, g, b];
          mn = Math_min [r, g, b];
          d = num_sub mx mn;
          h = (if \<not> num_eq d (Fin 0) then
                 (let h1 = (if num_eq mx r then num_rem (num_div (num_sub g b) d) (Fin 6)
                            else if num_eq mx g then num_add (num_div (num_sub b r) d) (Fin 2)
                            else num_add (num_div (num_sub r g) d) (Fin 4));
                      h2 = num_mul h1 (Fin 60)
                  in if num_lt h2 (Fin 0) then num_add h2 (Fin 360) else h2)
               else Fin 0);
          l = num_div (num_add mx mn) (Fin 2);
          s = (if num_eq d (Fin 0) then Fin 0
               else num_div d (num_sub (Fin 1) (Math_abs (num_sub (num_mul (Fin 2) l) (Fin 1)))))
      in \<lparr>hsl_h = h, hsl_s = num_mul s (Fin 100), hsl_l = num_mul l (Fin 100)\<rparr>)"

definition lerp :: "number \<Rightarrow> number \<Rightarrow> number \<Rightarrow> number" where
  "lerp a b t = num_add a (num_mul (num_sub b a) t)"

definition lerpHue :: "number \<Rightarrow> number \<Rightarrow> number \<Rightarrow> number" where
  "lerpHue h1 h2 t =
     (let delta = num_sub (num_rem (num_add (num_sub h2 h1) (Fin 540)) (Fin 360)) (Fin 180)
      in num_rem (num_add (num_add h1 (num_mul delta t)) (Fin 360)) (Fin 360))"

definition makeGreen :: "number \<Rightarrow> number \<Rightarrow> error + jsstring" where
  "makeGreen i total' =
     (let t = (if num_le total' (Fin 1) then Fin 0 else num_div i (num_sub total' (Fin 1)));
          a = (if num_lt t (Fin (1 / 2)) then 0 else 1 :: nat);
          localT = (if num_lt t (Fin (1 / 2)) then num_div t (Fin (1 / 2))
                    else num_div (num_sub t (Fin (1 / 2))) (Fin (1 / 2)));
          fromHex = (if a = 0 then START_HEX else MID_HEX);
          toHex = (if a = 0 then MID_HEX else END_HEX)
      in case hexToRgb fromHex of Inl e \<Rightarrow> Inl e | Inr fromRgb \<Rightarrow>
         (case hexToRgb toHex of Inl e \<Rightarrow> Inl e | Inr toRgb \<Rightarrow>
           (let fromHsl = rgbToHsl (rgb_r fromRgb) (rgb_g fromRgb) (rgb_b fromRgb);
                toHsl = rgbToHsl (rgb_r toRgb) (rgb_g toRgb) (rgb_b toRgb);
                h = lerpHue (hsl_h fromHsl) (hsl_h toHsl) localT;
                s = lerp (hsl_s fromHsl) (hsl_s toHsl) localT;
                l = lerp (hsl_l fromHsl) (hsl_l toHsl) localT
            in Inr (hslToHex h s l))))"

section \<open>The grid renderer\<close>

text \<open>
  The part of the document that \<^verbatim>\<open>buildPalette\<close> reads and writes: the children of the
  element with id \<^verbatim>\<open>palette\<close> (\<open>None\<close> when the page has no such element) and the values
  that the coming calls of \<^verbatim>\<open>Math.random\<close> return. A button is recorded with what the
  script sets on it; the click listener is recorded by the address it navigates to.
\<close>

datatype child = DivText jsstring jsstring | DivHtml jsstring jsstring

record swatch =
  classList :: "jsstring list"
  button_type :: jsstring
  backgroundColor :: jsstring
  aria_label :: jsstring
  click_href :: "jsstring option"
  children :: "child list"

record page =
  palette :: "swatch list option"
  random_source :: "number stream"

definition interests_html :: jsstring where
  \<open>interests_html =
     10 # str ''        <div class="interests__title">These are my interests:</div>'' @
     10 # str ''        <ul class="interests__list">'' @
     10 # str ''          '' @ concat (map (\<lambda>x. str ''<li>'' @ x @ str ''</li>'') INTERESTS) @
     10 # str ''        </ul>'' @
     10 # str ''      ''\<close>

text \<open>The body of the loop for the counter \<open>i\<close>.\<close>

definition make_tile :: "number \<Rightarrow> nat \<Rightarrow> error + swatch" where
  "make_tile interestsIndex i =
     (case (if num_eq (num i) MID_INDEX then Inr MID_HEX else makeGreen (num i) (num TILE_COUNT)) of
        Inl e \<Rightarrow> Inl e
      | Inr color \<Rightarrow>
          Inr \<lparr>classList = [str ''swatch'']
                  @ (if num_eq (num i) MID_INDEX then [str ''has-eye''] else [])
                  @ (if num_eq (num i) interestsIndex then [str ''has-interests''] else []),
               button_type = str ''button'',
               backgroundColor = color,
               aria_label = str ''Color '' @ String_nat (i + 1) @ str '': '' @ color,
               click_href = (if num_eq (num i) MID_INDEX then Some (str ''./eye.html'') else None),
               children =
                 (if num_eq (num i) MID_INDEX then [DivText (str ''eye-text'') (str ''Eye Color'')]
                  else [])
                 @ (if num_eq (num i) interestsIndex then [DivHtml (str ''interests'') interests_html]
                    else [])
                 @ [DivText (str ''label'')
                      (35 # padStart 3 48 (String_nat (i + 1)) @ str ''  '' @ color)]\<rparr>)"

function tile_loop :: "number \<Rightarrow> nat \<Rightarrow> swatch list \<Rightarrow> error + swatch list" where
  "tile_loop interestsIndex i frag =
     (if i < TILE_COUNT then
        (case make_tile interestsIndex i of
           Inl e \<Rightarrow> Inl e
         | Inr btn \<Rightarrow> tile_loop interestsIndex (Suc i) (frag @ [btn]))
      else Inr frag)"
  by pat_completeness auto
termination
  by (relation "measure (\<lambda>(interestsIndex, i, frag). TILE_COUNT - i)") auto

text \<open>
  The interests index chosen from the value \<open>u\<close> that \<^verbatim>\<open>Math.random()\<close> returned:
  \<open>draw_index\<close> is the first assignment, \<open>avoid_mid\<close> the conditional one.
\<close>

definition draw_index :: "number \<Rightarrow> number" where
  "draw_index u = Math_floor (num_mul u (num TILE_COUNT))"

definition avoid_mid :: "number \<Rightarrow> number" where
  "avoid_mid interestsIndex =
     (if num_eq interestsIndex MID_INDEX
      then num_rem (num_add interestsIndex (Fin 1)) (num TILE_COUNT)
      else interestsIndex)"

definition buildPalette :: "page \<Rightarrow> error + page" where
  "buildPalette pg =
     (case palette pg of
        None \<Rightarrow> Inr pg
      | Some old \<Rightarrow>
          (let interestsIndex = avoid_mid (draw_index (shd (random_source pg))) in
           case tile_loop interestsIndex 0 [] of
             Inl e \<Rightarrow> Inl e
           | Inr frag \<Rightarrow>
               Inr (pg\<lparr>palette := Some frag, random_source := stl (random_source pg)\<rparr>)))"

section \<open>Exact counterparts of the conversions\<close>

text \<open>
  The statements about all colours compare the binary64 computation with the same
  computation over the rationals. \<open>near a x d\<close> says that the number \<open>a\<close> is finite and within
  \<open>d\<close> of the rational \<open>x\<close>.
\<close>

definition near :: "number \<Rightarrow> rat \<Rightarrow> rat \<Rightarrow> bool" where
  "near a x d \<longleftrightarrow> finite_num a \<and> \<bar>val a - x\<bar> \<le> d"

text \<open>
  The three channels of \<^verbatim>\<open>hslToHex\<close> before chroma and lightness are applied, as functions
  of the exact sector coordinate \<open>h / 60\<close>, and the triangle wave \<open>1 - |t mod 2 - 1|\<close>.
\<close>

definition rho_r :: "rat \<Rightarrow> rat" where
  "rho_r t = max 0 (min 1 (\<bar>t - 3\<bar> - 1))"

definition rho_g :: "rat \<Rightarrow> rat" where
  "rho_g t = max 0 (min 1 (2 - \<bar>t - 2\<bar>))"

definition rho_b :: "rat \<Rightarrow> rat" where
  "rho_b t = max 0 (min 1 (2 - \<bar>t - 4\<bar>))"

definition tri :: "rat \<Rightarrow> rat" where
  "tri t = 1 - \<bar>t - 2 * of_int \<lfloor>t / 2\<rfloor> - 1\<bar>"

text \<open>
  What \<^verbatim>\<open>rgbToHsl\<close> computes for three bytes, over the rationals: lightness and saturation
  as fractions of 1, the difference of the largest and the smallest channel, and the hue in
  units of 60 degrees.
\<close>

definition exact_light :: "nat \<Rightarrow> nat \<Rightarrow> nat \<Rightarrow> rat" where
  "exact_light R G B = (of_nat (max R (max G B)) + of_nat (min R (min G B))) / 510"

definition exact_chroma :: "nat \<Rightarrow> nat \<Rightarrow> nat \<Rightarrow> rat" where
  "exact_chroma R G B = (of_nat (max R (max G B)) - of_nat (min R (min G B))) / 255"

definition exact_sat :: "nat \<Rightarrow> nat \<Rightarrow> nat \<Rightarrow> rat" where
  "exact_sat R G B =
     (if max R (max G B) = min R (min G B) then 0
      else exact_chroma R G B / (1 - \<bar>2 * exact_light R G B - 1\<bar>))"

definition exact_hue :: "nat \<Rightarrow> nat \<Rightarrow> nat \<Rightarrow> rat" where
  "exact_hue R G B =
     (let Mx = max R (max G B); D = of_nat Mx - of_nat (min R (min G B)) in
      if D = 0 then 0
      else if R = Mx then (if G < B then (of_nat G - of_nat B) / D + 6 else (of_nat G - of_nat B) / D)
      else if G = Mx then (of_nat B - of_nat R) / D + 2
      else (of_nat R - of_nat G) / D + 4)"

section \<open>Rounding: exponent, nearest value, monotonicity\<close>

lemma pow2_pos [simp]: "0 < pow2 e"
  by (simp add: pow2_def)

lemma pow2_nonneg [simp]: "0 \<le> pow2 e"
  by (simp add: pow2_def)

lemma pow2_neq0 [simp]: "pow2 e \<noteq> 0"
  by (simp add: pow2_def)

lemma pow2_add: "pow2 (a + b) = pow2 a * pow2 b"
  by (simp add: pow2_def power_int_add)

lemma pow2_diff: "pow2 (a - b) = pow2 a / pow2 b"
  by (simp add: pow2_def power_int_diff)

lemma pow2_less_iff [simp]: "pow2 a < pow2 b \<longleftrightarrow> a < b"
  unfolding pow2_def
  by (metis linorder_not_less one_less_numeral_iff order_le_less power_int_increasing power_int_strict_increasing semiring_norm(76))

lemma pow2_le_iff [simp]: "pow2 a \<le> pow2 b \<longleftrightarrow> a \<le> b"
  by (metis linorder_not_less pow2_less_iff)

lemma pow2_nat: "0 \<le> e \<Longrightarrow> pow2 e = 2 ^ nat e"
  by (simp add: pow2_def power_int_nonneg_exp)

lemma pow2_0 [simp]: "pow2 0 = 1"
  by (simp add: pow2_def)

lemma pow2_Suc: "pow2 (e + 1) = 2 * pow2 e"
  by (simp add: pow2_def power_int_add)

lemma ilog2_bounds:
  assumes "0 < x"
  shows "pow2 (ilog2 x) \<le> x \<and> x < pow2 (ilog2 x + 1)"
proof (cases "1 \<le> x")
  case True
  define n where "n = \<lfloor>x\<rfloor>"
  have n: "0 < n" using True by (simp add: n_def)
  from bitlen_bounds[OF n] have b: "2 ^ nat (bitlen n - 1) \<le> n" "n < 2 ^ nat (bitlen n)" by auto
  have bl: "1 \<le> bitlen n" using n by (simp add: bitlen_alt_def)
  have "pow2 (bitlen n - 1) = of_int (2 ^ nat (bitlen n - 1))"
    using bl by (simp add: pow2_nat)
  also have "\<dots> \<le> of_int n" using b(1) by (simp only: of_int_le_iff)
  also have "\<dots> \<le> x" by (simp add: n_def)
  finally have lo: "pow2 (bitlen n - 1) \<le> x" .
  have "x < of_int (n + 1)" unfolding n_def by linarith
  also have "\<dots> \<le> of_int (2 ^ nat (bitlen n))" using b(2) by (simp only: of_int_le_iff)
  also have "\<dots> = pow2 (bitlen n)" using bl by (simp add: pow2_nat)
  finally have hi: "x < pow2 (bitlen n)" .
  show ?thesis using True lo hi by (simp add: ilog2_def n_def)
next
  case False
  define n where "n = \<lceil>1 / x\<rceil> - 1"
  have x1: "1 < 1 / x" using False assms by simp
  have n: "0 < n" using x1 unfolding n_def by linarith
  from bitlen_bounds[OF n] have b: "2 ^ nat (bitlen n - 1) \<le> n" "n < 2 ^ nat (bitlen n)" by auto
  have bl: "1 \<le> bitlen n" using n by (simp add: bitlen_alt_def)
  have "of_int n < 1 / x" unfolding n_def by linarith
  moreover have "pow2 (bitlen n - 1) = of_int (2 ^ nat (bitlen n - 1))"
    using bl by (simp add: pow2_nat)
  moreover have "(of_int (2 ^ nat (bitlen n - 1)) :: rat) \<le> of_int n" using b(1) by (simp only: of_int_le_iff)
  ultimately have "pow2 (bitlen n - 1) < 1 / x" by linarith
  then have "x < 1 / pow2 (bitlen n - 1)"
    using assms by (simp add: field_simps)
  then have hi: "x < pow2 (- bitlen n + 1)"
    by (simp add: pow2_def power_int_minus_divide[symmetric])
  have "1 / x \<le> of_int (n + 1)" unfolding n_def by simp
  also have "\<dots> \<le> of_int (2 ^ nat (bitlen n))" using b(2) by (simp only: of_int_le_iff)
  also have "\<dots> = pow2 (bitlen n)" using bl by (simp add: pow2_nat)
  finally have "1 / x \<le> pow2 (bitlen n)" .
  then have "1 / pow2 (bitlen n) \<le> x"
    using assms by (simp add: field_simps)
  then have lo: "pow2 (- bitlen n) \<le> x"
    by (simp add: pow2_def power_int_minus_divide[symmetric])
  show ?thesis using False lo hi by (simp add: ilog2_def n_def)
qed

lemma ilog2_unique:
  assumes "pow2 e \<le> x" "x < pow2 (e + 1)"
  shows "ilog2 x = e"
proof -
  have x: "0 < x" using assms(1) pow2_pos[of e] by linarith
  from ilog2_bounds[OF x] have "pow2 (ilog2 x) < pow2 (e + 1)" "pow2 e < pow2 (ilog2 x + 1)"
    using assms by linarith+
  then show ?thesis by simp
qed

lemma round_even_of_int [simp]: "round_even (of_int n) = n"
  by (simp add: round_even_def)

lemma round_even_floor_le: "\<lfloor>x\<rfloor> \<le> round_even x"
  by (simp add: round_even_def Let_def)

lemma round_even_le_floor: "round_even x \<le> \<lfloor>x\<rfloor> + 1"
  by (simp add: round_even_def Let_def)

lemma round_even_err: "\<bar>x - of_int (round_even x)\<bar> \<le> 1 / 2"
proof -
  define f where "f = \<lfloor>x\<rfloor>"
  have b: "of_int f \<le> x" "x < of_int f + 1" unfolding f_def by linarith+
  have "round_even x = (if x - of_int f < 1 / 2 then f else if 1 / 2 < x - of_int f then f + 1
      else if even f then f else f + 1)"
    by (simp add: round_even_def Let_def f_def)
  then consider "round_even x = f" "x - of_int f \<le> 1 / 2" | "round_even x = f + 1" "1 / 2 \<le> x - of_int f"
    by (auto split: if_splits)
  then show ?thesis
  proof cases
    case 1
    then show ?thesis using b by (simp add: abs_if)
  next
    case 2
    then show ?thesis using b by (simp add: abs_if)
  qed
qed

lemma round_even_near:
  assumes "\<bar>x - of_int m\<bar> < 1 / 2"
  shows "round_even x = m"
proof -
  have e: "\<bar>x - of_int (round_even x)\<bar> \<le> 1 / 2" by (rule round_even_err)
  have "\<bar>(of_int (round_even x) :: rat) - of_int m\<bar> < 1" using assms e by linarith
  then have "\<bar>(of_int (round_even x - m) :: rat)\<bar> < 1" by simp
  then have "\<bar>round_even x - m\<bar> < 1"
    by (metis of_int_abs of_int_less_1_iff)
  then show ?thesis by linarith
qed

lemma round_even_mono:
  assumes "x \<le> y"
  shows "round_even x \<le> round_even y"
proof (cases "\<lfloor>x\<rfloor> = \<lfloor>y\<rfloor>")
  case True
  then show ?thesis using assms
    by (auto simp: round_even_def Let_def)
next
  case False
  then have "\<lfloor>x\<rfloor> < \<lfloor>y\<rfloor>" using assms floor_mono[OF assms] by linarith
  then show ?thesis
    using round_even_le_floor[of x] round_even_floor_le[of y] by linarith
qed

lemma round_even_minus: "round_even (- x) = - round_even x"
proof (cases "x = of_int \<lfloor>x\<rfloor>")
  case True
  then obtain n where "x = of_int n" by blast
  then show ?thesis
    by (metis of_int_minus round_even_of_int)
next
  case False
  then have c: "\<lceil>x\<rceil> = \<lfloor>x\<rfloor> + 1"
    by (metis ceiling_altdef)
  have f: "\<lfloor>- x\<rfloor> = - \<lfloor>x\<rfloor> - 1"
    using c by (simp add: ceiling_def)
  show ?thesis
    unfolding round_even_def Let_def f
    by (auto simp: algebra_simps)
qed

lemma round_even_0 [simp]: "round_even 0 = 0"
  by (simp add: round_even_def)

lemma rval_0 [simp]: "rval 0 = 0"
  by (simp add: rval_def)

lemma quantum_minus [simp]: "quantum (- x) = quantum x"
  by (simp add: quantum_def)

lemma rval_minus: "rval (- x) = - rval x"
  by (simp add: rval_def round_even_minus)

lemma quantum_ge: "- 1074 \<le> quantum x"
  by (simp add: quantum_def)

lemma quantum_eq:
  assumes "pow2 e \<le> \<bar>x\<bar>" "\<bar>x\<bar> < pow2 (e + 1)"
  shows "quantum x = max e (- 1022) - 52"
  using ilog2_unique[OF assms] by (simp add: quantum_def)

lemma quantum_upper:
  assumes "x \<noteq> 0"
  shows "\<bar>x\<bar> < pow2 (quantum x + 53)"
proof -
  have "0 < \<bar>x\<bar>" using assms by simp
  from ilog2_bounds[OF this] have "\<bar>x\<bar> < pow2 (ilog2 \<bar>x\<bar> + 1)" by simp
  also have "\<dots> \<le> pow2 (quantum x + 53)"
    by (simp add: quantum_def)
  finally show ?thesis .
qed

lemma quantum_le:
  assumes "\<bar>x\<bar> < pow2 (j + 53)" "- 1074 \<le> j" "x \<noteq> 0"
  shows "quantum x \<le> j"
proof -
  have "0 < \<bar>x\<bar>" using assms by simp
  from ilog2_bounds[OF this] have "pow2 (ilog2 \<bar>x\<bar>) < pow2 (j + 53)" using assms(1) by linarith
  then have "ilog2 \<bar>x\<bar> < j + 53" by simp
  then show ?thesis using assms(2) by (simp add: quantum_def)
qed

lemma quantum_normal:
  assumes "quantum x \<noteq> - 1074" "x \<noteq> 0"
  shows "pow2 (quantum x + 52) \<le> \<bar>x\<bar>"
proof -
  have i: "quantum x + 52 = ilog2 \<bar>x\<bar>"
    using assms by (auto simp: quantum_def max_def split: if_splits)
  have "0 < \<bar>x\<bar>" using assms by simp
  from ilog2_bounds[OF this] show ?thesis using i by simp
qed

lemma rval_quantum: "rval x / pow2 (quantum x) = of_int (round_even (x / pow2 (quantum x)))"
  by (simp add: rval_def)

lemma rval_nonneg: "0 \<le> x \<Longrightarrow> 0 \<le> rval x"
proof -
  assume "0 \<le> x"
  then have "0 \<le> x / pow2 (quantum x)" by simp
  from round_even_mono[OF this] show ?thesis by (simp add: rval_def)
qed

lemma rval_upper:
  assumes "0 < x"
  shows "rval x \<le> pow2 (quantum x + 53)"
proof -
  have "x < pow2 (quantum x + 53)" using quantum_upper[of x] assms by simp
  then have "x / pow2 (quantum x) \<le> pow2 53"
    by (simp add: pow2_add field_simps)
  also have "pow2 53 = of_int (2 ^ 53)" by (simp add: pow2_def)
  finally have "round_even (x / pow2 (quantum x)) \<le> 2 ^ 53"
    using round_even_mono round_even_of_int by metis
  then have "(of_int (round_even (x / pow2 (quantum x))) :: rat) \<le> of_int (2 ^ 53)"
    by (simp only: of_int_le_iff)
  also have "(of_int (2 ^ 53) :: rat) = pow2 53" by (simp add: pow2_def)
  finally show ?thesis
    by (simp add: rval_def pow2_add field_simps)
qed

lemma rval_lower:
  assumes "0 < x" "quantum x \<noteq> - 1074"
  shows "pow2 (quantum x + 52) \<le> rval x"
proof -
  have "pow2 (quantum x + 52) \<le> x" using quantum_normal[of x] assms by simp
  then have "pow2 52 \<le> x / pow2 (quantum x)"
    by (simp add: pow2_add field_simps)
  moreover have "pow2 52 = of_int (2 ^ 52)" by (simp add: pow2_def)
  ultimately have "2 ^ 52 \<le> round_even (x / pow2 (quantum x))"
    using round_even_mono round_even_of_int by metis
  then have "(of_int (2 ^ 52) :: rat) \<le> of_int (round_even (x / pow2 (quantum x)))"
    by (simp only: of_int_le_iff)
  moreover have "(of_int (2 ^ 52) :: rat) = pow2 52" by (simp add: pow2_def)
  ultimately show ?thesis
    by (simp add: rval_def pow2_add field_simps)
qed

lemma quantum_mono_pos:
  assumes "0 < x" "x \<le> y"
  shows "quantum x \<le> quantum y"
proof -
  have "pow2 (ilog2 x) \<le> x" using ilog2_bounds[OF assms(1)] by simp
  moreover have "y < pow2 (ilog2 y + 1)" using ilog2_bounds[of y] assms by simp
  ultimately have "pow2 (ilog2 x) < pow2 (ilog2 y + 1)" using assms by linarith
  then have "ilog2 x \<le> ilog2 y" by simp
  then show ?thesis using assms by (simp add: quantum_def abs_if)
qed

lemma rval_mono_pos:
  assumes "0 < x" "x \<le> y"
  shows "rval x \<le> rval y"
proof (cases "quantum x = quantum y")
  case True
  have "x / pow2 (quantum y) \<le> y / pow2 (quantum y)"
    using assms by (simp add: divide_right_mono)
  from round_even_mono[OF this] show ?thesis
    by (simp add: rval_def True)
next
  case False
  then have lt: "quantum x < quantum y" using quantum_mono_pos[OF assms] by simp
  then have "quantum y \<noteq> - 1074" using quantum_ge[of x] by simp
  then have "pow2 (quantum y + 52) \<le> rval y" using rval_lower[of y] assms by simp
  moreover have "rval x \<le> pow2 (quantum x + 53)" using rval_upper[OF assms(1)] .
  moreover have "pow2 (quantum x + 53) \<le> pow2 (quantum y + 52)" using lt by simp
  ultimately show ?thesis by linarith
qed

lemma rval_mono:
  assumes "x \<le> y"
  shows "rval x \<le> rval y"
proof -
  consider "0 < x" | "y < 0" | "x \<le> 0" "0 \<le> y" by linarith
  then show ?thesis
  proof cases
    case 1
    then show ?thesis using rval_mono_pos assms by simp
  next
    case 2
    then have "rval (- y) \<le> rval (- x)" using rval_mono_pos[of "- y" "- x"] assms by simp
    then show ?thesis by (simp add: rval_minus)
  next
    case 3
    have "rval (- x) \<ge> 0" using rval_nonneg[of "- x"] 3 by simp
    then have "rval x \<le> 0" by (simp add: rval_minus)
    moreover have "0 \<le> rval y" using rval_nonneg 3 by simp
    ultimately show ?thesis by linarith
  qed
qed

lemma rval_exact:
  assumes "- 1074 \<le> j" "\<bar>of_int m * pow2 j\<bar> < pow2 (j + 53)"
  shows "rval (of_int m * pow2 j) = of_int m * pow2 j"
proof (cases "m = 0")
  case True
  then show ?thesis by simp
next
  case False
  define x where "x = of_int m * pow2 j"
  have x0: "x \<noteq> 0" using False by (simp add: x_def)
  have q: "quantum x \<le> j" using quantum_le[of x j] assms x0 by (simp add: x_def)
  have "x / pow2 (quantum x) = of_int m * pow2 (j - quantum x)"
    by (simp add: x_def pow2_diff)
  also have "pow2 (j - quantum x) = of_int (2 ^ nat (j - quantum x))"
    using q by (simp add: pow2_nat)
  finally have "x / pow2 (quantum x) = of_int (m * 2 ^ nat (j - quantum x))" by simp
  then have "round_even (x / pow2 (quantum x)) = m * 2 ^ nat (j - quantum x)"
    by (simp only: round_even_of_int)
  then have "rval x = of_int m * (of_int (2 ^ nat (j - quantum x)) * pow2 (quantum x))"
    by (simp add: rval_def)
  also have "of_int (2 ^ nat (j - quantum x)) = pow2 (j - quantum x)"
    using q by (simp add: pow2_nat)
  also have "pow2 (j - quantum x) * pow2 (quantum x) = pow2 j"
    by (simp add: pow2_diff)
  finally show ?thesis by (simp add: x_def)
qed

lemma rval_cert:
  assumes "pow2 (k + 52) \<le> \<bar>x\<bar>" "\<bar>x\<bar> < pow2 (k + 53)" "- 1074 \<le> k"
    and "\<bar>x - of_int m * pow2 k\<bar> < pow2 k / 2"
  shows "rval x = of_int m * pow2 k"
proof -
  have q: "quantum x = k"
    using quantum_eq[of "k + 52" x] assms(1,2,3) by (simp add: add.commute max_def)
  have "x / pow2 k - of_int m = (x - of_int m * pow2 k) / pow2 k"
    by (simp add: field_simps)
  then have "\<bar>x / pow2 k - of_int m\<bar> = \<bar>x - of_int m * pow2 k\<bar> / pow2 k"
    by (simp only: abs_divide abs_of_pos[OF pow2_pos])
  also have "\<dots> < 1 / 2" using assms(4) by (simp add: field_simps)
  finally have "round_even (x / pow2 k) = m" by (rule round_even_near)
  then show ?thesis by (simp add: rval_def q)
qed

lemma rval_err: "\<bar>rval x - x\<bar> \<le> pow2 (quantum x) / 2"
proof -
  have "rval x - x = - (x / pow2 (quantum x) - of_int (round_even (x / pow2 (quantum x)))) * pow2 (quantum x)"
    by (simp add: rval_def field_simps)
  then have "\<bar>rval x - x\<bar> = \<bar>x / pow2 (quantum x) - of_int (round_even (x / pow2 (quantum x)))\<bar> * pow2 (quantum x)"
    by (simp only: abs_mult abs_minus_cancel abs_of_pos[OF pow2_pos])
  also have "\<dots> \<le> 1 / 2 * pow2 (quantum x)"
    by (rule mult_right_mono[OF round_even_err]) simp
  finally show ?thesis by simp
qed

section \<open>Evaluating the operators\<close>

lemma floor_rat_numeral [simp]: "\<lfloor>numeral a / numeral b :: rat\<rfloor> = numeral a div numeral b"
  using floor_divide_of_int_eq[of "numeral a" "numeral b", where ?'a = rat] by simp

lemma pow2_numeral: "pow2 (numeral k) = 2 ^ numeral k"
  by (simp add: pow2_def)

lemma pow2_neg_numeral: "pow2 (- numeral k) = 1 / 2 ^ numeral k"
  by (simp add: pow2_def power_int_minus_divide)

lemma pow2_1: "pow2 1 = 2"
  by (simp add: pow2_def)

lemma pow2_m1: "pow2 (- 1) = 1 / 2"
  by (simp add: pow2_def power_int_minus_divide)

lemmas pow2_eval = pow2_numeral pow2_neg_numeral pow2_1 pow2_m1

lemma rnd_Fin:
  assumes "rval x = y" "\<bar>y\<bar> < pow2 1024" "y = 0 \<longrightarrow> 0 \<le> x"
  shows "rnd x = Fin y"
  using assms by (auto simp: rnd_def Let_def abs_if split: if_splits)

lemma rnd_exact:
  assumes "- 1074 \<le> j" "\<bar>of_int m * pow2 j\<bar> < pow2 (j + 53)" "\<bar>of_int m * pow2 j\<bar> < pow2 1024"
  shows "rnd (of_int m * pow2 j) = Fin (of_int m * pow2 j)"
  by (rule rnd_Fin) (use assms in \<open>simp_all add: rval_exact\<close>)

lemma rnd_int:
  assumes "\<bar>n\<bar> < 2 ^ 53"
  shows "rnd (of_int n) = Fin (of_int n)"
proof -
  have "\<bar>(of_int n :: rat)\<bar> < of_int (2 ^ 53)"
    using assms by (simp only: of_int_abs[symmetric] of_int_less_iff)
  then have "\<bar>(of_int n :: rat)\<bar> < pow2 53" by (simp add: pow2_eval)
  moreover from this have "\<bar>(of_int n :: rat)\<bar> < pow2 1024"
    using pow2_less_iff[of 53 1024] by linarith
  ultimately show ?thesis using rnd_exact[of 0 n] by simp
qed

lemma rnd_0 [simp]: "rnd 0 = Fin 0"
  using rnd_int[of 0] by simp

lemma rnd_1 [simp]: "rnd 1 = Fin 1"
  using rnd_int[of 1] by simp

lemma rnd_numeral [simp]: "numeral k < (2::int) ^ 53 \<Longrightarrow> rnd (numeral k) = Fin (numeral k)"
  using rnd_int[of "numeral k"] by simp

lemma rnd_neg_numeral [simp]: "numeral k < (2::int) ^ 53 \<Longrightarrow> rnd (- numeral k) = Fin (- numeral k)"
  using rnd_int[of "- numeral k"] by simp

lemma rnd_cert:
  assumes "y = of_int m * pow2 k"
    and "pow2 (k + 52) \<le> \<bar>x\<bar>" "\<bar>x\<bar> < pow2 (k + 53)" "- 1074 \<le> k" "k \<le> 970"
    and "\<bar>x - y\<bar> < pow2 k / 2"
  shows "rnd x = Fin y"
proof (rule rnd_Fin)
  show r: "rval x = y" using rval_cert[of k x m] assms by simp
  have "\<bar>x\<bar> < pow2 1023" using assms(3,5) pow2_le_iff[of "k + 53" 1023] by linarith
  then have "x \<le> pow2 1023" "- pow2 1023 \<le> x" by linarith+
  then have "rval x \<le> rval (pow2 1023)" "- rval (pow2 1023) \<le> rval x"
    using rval_mono[of x "pow2 1023"] rval_mono[of "- pow2 1023" x] by (simp_all add: rval_minus)
  then have "\<bar>rval x\<bar> \<le> rval (pow2 1023)" by linarith
  also have "rval (pow2 1023) = pow2 1023"
    using rval_exact[of 1023 1] by simp
  finally show "\<bar>y\<bar> < pow2 1024" using r pow2_less_iff[of 1023 1024] by linarith
  have "0 < \<bar>x\<bar>" using assms(2) pow2_pos[of "k + 52"] by linarith
  show "y = 0 \<longrightarrow> 0 \<le> x"
  proof
    assume "y = 0"
    then have "\<bar>x\<bar> < pow2 k / 2" using assms(6) by simp
    moreover have "pow2 k \<le> pow2 (k + 52)" by simp
    then have "pow2 k / 2 \<le> pow2 (k + 52)"
      using pow2_pos[of k] by linarith
    ultimately show "0 \<le> x" using assms(2) by linarith
  qed
qed

lemma num_add_Fin: "num_add (Fin a) (Fin b) = rnd (a + b)"
  by (simp add: num_add_def)

lemma num_sub_Fin: "num_sub (Fin a) (Fin b) = rnd (a - b)"
  by (simp add: num_sub_def num_add_def)

lemma num_mul_Fin: "a \<noteq> 0 \<Longrightarrow> b \<noteq> 0 \<Longrightarrow> num_mul (Fin a) (Fin b) = rnd (a * b)"
  by (simp add: num_mul_def)

lemma num_div_Fin: "a \<noteq> 0 \<Longrightarrow> b \<noteq> 0 \<Longrightarrow> num_div (Fin a) (Fin b) = rnd (a / b)"
  by (simp add: num_div_def)

lemma MID_INDEX_eq: "MID_INDEX = Fin 30"
proof -
  have "rnd (59 / 2) = Fin (59 / 2)" using rnd_exact[of "- 1" 59] by (simp add: pow2_eval)
  then show ?thesis
    by (simp add: MID_INDEX_def TILE_COUNT_def num_def num_sub_Fin num_div_Fin)
qed

section \<open>Parsing the anchors\<close>

lemma is_hex_not_ws: "is_hex c \<Longrightarrow> \<not> is_ws c"
  by (auto simp: is_hex_def is_ws_def)

lemma hex_val_lt: "is_hex c \<Longrightarrow> hex_val c < 16"
  by (auto simp: is_hex_def hex_val_def)

lemma rnd_of_nat: "n < 2 ^ 53 \<Longrightarrow> rnd (of_nat n) = Fin (of_nat n)"
  using rnd_int[of "int n"] by simp

lemma parseInt16_pair:
  assumes "is_hex a" "is_hex b"
  shows "parseInt16 [a, b] = num (16 * hex_val a + hex_val b)"
proof -
  have ws: "dropWhile is_ws [a, b] = [a, b]"
    using assms(1) by (simp add: is_hex_not_ws)
  have sg: "strip_sign [a, b] = (False, [a, b])"
    using assms(1) by (auto simp: is_hex_def)
  have px: "strip_0x [a, b] = [a, b]"
    using assms(2) by (auto simp: is_hex_def)
  have tk: "takeWhile is_hex [a, b] = [a, b]"
    using assms by simp
  have v: "hex_value [a, b] = 16 * hex_val a + hex_val b"
    by (simp add: hex_value_def)
  have "16 * hex_val a + hex_val b < 2 ^ 53"
    using hex_val_lt[OF assms(1)] hex_val_lt[OF assms(2)] by simp
  then have "rnd (of_nat (16 * hex_val a + hex_val b)) = Fin (of_nat (16 * hex_val a + hex_val b))"
    by (rule rnd_of_nat)
  moreover have "parseInt16 [a, b] =
      (if hex_value [a, b] = 0 then zero_of False else rnd (of_nat (hex_value [a, b])))"
    by (simp only: parseInt16_def ws sg px tk Let_def prod.case) simp
  ultimately show ?thesis
    by (simp add: v num_def zero_of_def del: of_nat_add of_nat_mult)
qed

lemma hexToRgb_hex6:
  assumes "trim (replace_leading_hash s) = [a, b, c, d, e, f]"
    and "\<forall>x \<in> set [a, b, c, d, e, f]. is_hex x"
  shows "hexToRgb s = Inr \<lparr>rgb_r = num (16 * hex_val a + hex_val b),
                           rgb_g = num (16 * hex_val c + hex_val d),
                           rgb_b = num (16 * hex_val e + hex_val f)\<rparr>"
  using assms by (simp add: hexToRgb_def slice_def parseInt16_pair)

lemma trim_hex: "\<forall>x \<in> set s. is_hex x \<Longrightarrow> trim s = s"
proof -
  assume h: "\<forall>x \<in> set s. is_hex x"
  then have "\<forall>x \<in> set s. \<not> is_ws x" by (simp add: is_hex_not_ws)
  then have "dropWhile is_ws s = s" "dropWhile is_ws (rev s) = rev s"
    by (cases s, simp, simp, cases s rule: rev_cases, simp, simp)
  then show ?thesis by (simp add: trim_def)
qed

lemma hexToRgb_START: "hexToRgb START_HEX = Inr \<lparr>rgb_r = Fin 58, rgb_g = Fin 59, rgb_b = Fin 35\<rparr>"
proof -
  have "hexToRgb START_HEX = Inr \<lparr>rgb_r = num (16 * hex_val 51 + hex_val 97),
      rgb_g = num (16 * hex_val 51 + hex_val 98), rgb_b = num (16 * hex_val 50 + hex_val 51)\<rparr>"
    by (rule hexToRgb_hex6) (simp_all add: START_HEX_def str_def trim_hex is_hex_def)
  then show ?thesis by (simp add: hex_val_def num_def)
qed

lemma hexToRgb_MID: "hexToRgb MID_HEX = Inr \<lparr>rgb_r = Fin 115, rgb_g = Fin 106, rgb_b = Fin 70\<rparr>"
proof -
  have "hexToRgb MID_HEX = Inr \<lparr>rgb_r = num (16 * hex_val 55 + hex_val 51),
      rgb_g = num (16 * hex_val 54 + hex_val 97), rgb_b = num (16 * hex_val 52 + hex_val 54)\<rparr>"
    by (rule hexToRgb_hex6) (simp_all add: MID_HEX_def str_def trim_hex is_hex_def)
  then show ?thesis by (simp add: hex_val_def num_def)
qed

lemma hexToRgb_END: "hexToRgb END_HEX = Inr \<lparr>rgb_r = Fin 212, rgb_g = Fin 199, rgb_b = Fin 166\<rparr>"
proof -
  have "hexToRgb END_HEX = Inr \<lparr>rgb_r = num (16 * hex_val 100 + hex_val 52),
      rgb_g = num (16 * hex_val 99 + hex_val 55), rgb_b = num (16 * hex_val 97 + hex_val 54)\<rparr>"
    by (rule hexToRgb_hex6) (simp_all add: END_HEX_def str_def trim_hex is_hex_def)
  then show ?thesis by (simp add: hex_val_def num_def)
qed

lemma hexToRgb_zz: "hexToRgb (str ''zzzzzz'') = Inr \<lparr>rgb_r = NaN, rgb_g = NaN, rgb_b = NaN\<rparr>"
  by (simp add: hexToRgb_def str_def trim_def is_ws_def slice_def parseInt16_def is_hex_def)

lemma hexToRgb_bad: "hexToRgb (str ''bad'') = Inl (Error (str ''Expected 6-digit hex, got: bad''))"
  by (simp add: hexToRgb_def str_def trim_def is_ws_def)

lemma hexToRgb_sp: "hexToRgb (str '' #aabbcc'') = Inl (Error (str ''Expected 6-digit hex, got:  #aabbcc''))"
  by (simp add: hexToRgb_def str_def trim_def is_ws_def)

section \<open>The tile loop\<close>

declare tile_loop.simps [simp del]

declare to_digits.simps [simp del]

lemma makeGreen_total: "\<exists>c. makeGreen i t = Inr c"
  by (simp add: makeGreen_def Let_def hexToRgb_START hexToRgb_MID hexToRgb_END)

lemma make_tile_total: "\<exists>b. make_tile ii i = Inr b"
proof (cases "num_eq (num i) MID_INDEX")
  case True
  then show ?thesis by (simp add: make_tile_def)
next
  case False
  obtain c where "makeGreen (num i) (num TILE_COUNT) = Inr c"
    using makeGreen_total by blast
  then show ?thesis using False by (simp add: make_tile_def)
qed

lemma tile_loop_tiles:
  assumes "i \<le> TILE_COUNT" "length frag = i" "\<forall>j<i. make_tile ii j = Inr (frag ! j)"
  shows "\<exists>tiles. tile_loop ii i frag = Inr tiles \<and> length tiles = TILE_COUNT
           \<and> (\<forall>j<TILE_COUNT. make_tile ii j = Inr (tiles ! j))"
  using assms
proof (induction ii i frag rule: tile_loop.induct)
  case (1 ii i frag)
  show ?case
  proof (cases "i < TILE_COUNT")
    case True
    obtain b where b: "make_tile ii i = Inr b" using make_tile_total by blast
    have "\<forall>j<Suc i. make_tile ii j = Inr ((frag @ [b]) ! j)"
      using "1.prems" b by (auto simp: nth_append less_Suc_eq)
    then have "\<exists>tiles. tile_loop ii (Suc i) (frag @ [b]) = Inr tiles \<and> length tiles = TILE_COUNT
           \<and> (\<forall>j<TILE_COUNT. make_tile ii j = Inr (tiles ! j))"
      using "1.IH"[OF True b] True "1.prems" by simp
    then show ?thesis using True b by (subst tile_loop.simps) simp
  next
    case False
    then have "i = TILE_COUNT" using "1.prems" by simp
    then show ?thesis using "1.prems" by (subst tile_loop.simps) simp
  qed
qed

lemma buildPalette_tiles:
  assumes "palette pg = Some old"
  shows "\<exists>tiles. buildPalette pg = Inr (pg\<lparr>palette := Some tiles, random_source := stl (random_source pg)\<rparr>)
           \<and> length tiles = TILE_COUNT
           \<and> (\<forall>j<TILE_COUNT. make_tile (avoid_mid (draw_index (shd (random_source pg)))) j = Inr (tiles ! j))"
proof -
  obtain tiles where "tile_loop (avoid_mid (draw_index (shd (random_source pg)))) 0 [] = Inr tiles"
    "length tiles = TILE_COUNT"
    "\<forall>j<TILE_COUNT. make_tile (avoid_mid (draw_index (shd (random_source pg)))) j = Inr (tiles ! j)"
    using tile_loop_tiles[of 0 "[]"] by auto
  then show ?thesis using assms
    by (intro exI[of _ tiles]) (simp add: buildPalette_def Let_def)
qed

lemma make_tile_mid:
  assumes "make_tile ii i = Inr b" "num_eq (num i) MID_INDEX"
  shows "backgroundColor b = MID_HEX"
  using assms by (auto simp: make_tile_def)

lemma make_tile_label:
  assumes "make_tile ii i = Inr b"
  shows "last (children b) = DivText (str ''label'')
           (35 # padStart 3 48 (String_nat (i + 1)) @ str ''  '' @ backgroundColor b)"
  using assms by (auto simp: make_tile_def split: sum.splits if_splits)

lemma num_eq_num: "num_eq (num i) (Fin q) \<longleftrightarrow> of_nat i = q"
  by (simp add: num_def)

lemma to_digits_lt100: "n < 100 \<Longrightarrow> to_digits 10 n = (if n < 10 then [n] else [n div 10, n mod 10])"
  by (subst to_digits.simps, subst to_digits.simps) (simp add: div_less_iff_less_mult)

lemma ordinal_3digits:
  assumes "i < 99"
  shows "padStart 3 48 (String_nat (i + 1)) = [48, 48 + (i + 1) div 10, 48 + (i + 1) mod 10]"
  using assms by (auto simp: padStart_def String_nat_def to_digits_lt100 digit_char_def numeral_3_eq_3)

section \<open>The interests index\<close>

lemma rnd_Fin_rval: "rnd q = Fin y \<Longrightarrow> rval q = y"
  by (auto simp: rnd_def Let_def split: if_splits)

lemma rval_lt_one:
  assumes "rval q = q" "q < 1"
  shows "q \<le> 1 - pow2 (- 53)"
proof (rule ccontr)
  assume "\<not> q \<le> 1 - pow2 (- 53)"
  then have lo: "1 - pow2 (- 53) < q" by simp
  have half: "pow2 (- 1) \<le> q" using lo by (simp add: pow2_eval)
  have qu: "quantum q = - 53"
    using quantum_eq[of "- 1" q] half assms(2) by (simp add: abs_if pow2_eval split: if_splits)
  define n where "n = round_even (q / pow2 (- 53))"
  have "q = of_int n * pow2 (- 53)" using assms(1) by (simp add: rval_def qu n_def)
  then have q: "q = of_int n / 2 ^ 53" by (simp add: pow2_eval)
  have "(of_int n :: rat) < of_int (2 ^ 53)" using assms(2) unfolding q by (simp add: field_simps)
  then have n1: "n < 2 ^ 53" by (simp only: of_int_less_iff)
  have "(of_int (2 ^ 53 - 1) :: rat) < of_int n" using lo unfolding q by (simp add: field_simps pow2_eval)
  then have "2 ^ 53 - 1 < n" by (simp only: of_int_less_iff)
  then show False using n1 by simp
qed

lemma Math_floor_num:
  assumes "0 \<le> y" "y < of_nat k"
  shows "\<exists>r<k. Math_floor (Fin y) = num r"
proof -
  have f0: "0 \<le> \<lfloor>y\<rfloor>" using assms(1) by simp
  have "\<lfloor>y\<rfloor> < int k" using assms(2) by (simp add: floor_less_iff)
  then have "nat \<lfloor>y\<rfloor> < k" using f0 by linarith
  moreover have "(of_nat (nat \<lfloor>y\<rfloor>) :: rat) = of_int \<lfloor>y\<rfloor>" using f0 by simp
  ultimately have "nat \<lfloor>y\<rfloor> < k" "(of_nat (nat \<lfloor>y\<rfloor>) :: rat) = of_int \<lfloor>y\<rfloor>" by simp_all
  then show ?thesis by (intro exI[of _ "nat \<lfloor>y\<rfloor>"]) (simp add: num_def)
qed

lemma draw_index_range:
  assumes "0 \<le> q" "q < 1" "rnd q = Fin q"
  shows "\<exists>r<TILE_COUNT. draw_index (Fin q) = num r"
proof (cases "q = 0")
  case True
  then show ?thesis
    by (intro exI[of _ 0]) (simp add: draw_index_def num_mul_def zero_of_def num_def TILE_COUNT_def)
next
  case False
  then have q0: "0 < q" using assms(1) by simp
  have "q \<le> 1 - pow2 (- 53)" using rval_lt_one[OF rnd_Fin_rval[OF assms(3)] assms(2)] .
  then have "q * 60 \<le> 60 - 60 * pow2 (- 53)" by simp
  then have "rval (q * 60) \<le> rval (60 - 60 * pow2 (- 53))" by (rule rval_mono)
  also have "rval (60 - 60 * pow2 (- 53)) = of_int (60 * 2 ^ 47 - 1) * pow2 (- 47)"
    by (rule rval_cert) (simp_all add: pow2_eval)
  also have "\<dots> < 60" by (simp add: pow2_eval)
  finally have up: "rval (q * 60) < 60" .
  have lo: "0 \<le> rval (q * 60)" using q0 by (simp add: rval_nonneg)
  have "\<bar>rval (q * 60)\<bar> < pow2 1024"
  proof -
    have "(60 :: rat) \<le> pow2 6" by (simp add: pow2_eval)
    moreover have "pow2 6 < pow2 1024" by simp
    ultimately show ?thesis using up lo by linarith
  qed
  then have "rnd (q * 60) = Fin (rval (q * 60))" using q0 by (intro rnd_Fin) simp_all
  then have "draw_index (Fin q) = Math_floor (Fin (rval (q * 60)))"
    using False by (simp add: draw_index_def num_mul_Fin num_def TILE_COUNT_def)
  moreover have "\<exists>r<60. Math_floor (Fin (rval (q * 60))) = num r"
    using Math_floor_num[of "rval (q * 60)" 60] lo up by simp
  ultimately show ?thesis by (simp add: TILE_COUNT_def)
qed

lemma num_rem_31_60: "num_rem (Fin 31) (Fin 60) = Fin 31"
proof -
  have "\<lfloor>31 / 60 :: rat\<rfloor> = 0" by (simp add: floor_eq_iff)
  then have "trunc (31 / 60) = 0" by (simp add: trunc_def)
  then show ?thesis by (simp add: num_rem_def Let_def)
qed

lemma avoid_mid_num:
  "avoid_mid (num r) = (if r = 30 then num 31 else num r)"
  by (simp add: avoid_mid_def MID_INDEX_eq num_def num_add_Fin num_rem_31_60 TILE_COUNT_def)


section \<open>Properties of the renderer\<close>

text \<open>
  Claim C9. When the page has no element with id \<^verbatim>\<open>palette\<close>, \<^verbatim>\<open>buildPalette\<close> returns
  without an error and leaves the whole state as it was: no tile is built, and
  \<^verbatim>\<open>Math.random\<close> is not called.
\<close>

theorem buildPalette_no_mount:
  assumes "palette pg = None"
  shows "buildPalette pg = Inr pg"
  using assms by (simp add: buildPalette_def)

theorem buildPalette_no_mount_witness:
  "buildPalette \<lparr>palette = None, random_source = sconst (Fin 0)\<rparr>
     = Inr \<lparr>palette = None, random_source = sconst (Fin 0)\<rparr>"
  using buildPalette_no_mount[of "\<lparr>palette = None, random_source = sconst (Fin 0)\<rparr>"] by simp

text \<open>
  Claim C5. Whatever \<^verbatim>\<open>Math.random\<close> returns, the build succeeds with \<open>TILE_COUNT\<close>
  tiles, \<open>MID_INDEX\<close> is 30, and the background colour set on the tile at index 30 is the
  string \<open>MID_HEX\<close> itself.
\<close>

theorem mid_tile_forced:
  assumes "palette pg = Some old"
  shows "\<exists>tiles. buildPalette pg = Inr (pg\<lparr>palette := Some tiles, random_source := stl (random_source pg)\<rparr>)
           \<and> length tiles = TILE_COUNT \<and> MID_INDEX = num 30
           \<and> backgroundColor (tiles ! 30) = MID_HEX"
proof -
  obtain tiles where t: "buildPalette pg = Inr (pg\<lparr>palette := Some tiles, random_source := stl (random_source pg)\<rparr>)"
    "length tiles = TILE_COUNT"
    "\<forall>j<TILE_COUNT. make_tile (avoid_mid (draw_index (shd (random_source pg)))) j = Inr (tiles ! j)"
    using buildPalette_tiles[OF assms] by blast
  have "make_tile (avoid_mid (draw_index (shd (random_source pg)))) 30 = Inr (tiles ! 30)"
    using t(3) by (simp add: TILE_COUNT_def)
  then have "backgroundColor (tiles ! 30) = MID_HEX"
    by (rule make_tile_mid) (simp add: MID_INDEX_eq num_def)
  then show ?thesis using t by (auto simp: MID_INDEX_eq num_def)
qed

theorem mid_tile_forced_witness:
  "\<exists>tiles. buildPalette \<lparr>palette = Some [], random_source = sconst (Fin 0)\<rparr>
       = Inr \<lparr>palette = Some tiles, random_source = sconst (Fin 0)\<rparr>
     \<and> length tiles = 60 \<and> backgroundColor (tiles ! 30) = str ''#736a46''"
  using mid_tile_forced[of "\<lparr>palette = Some [], random_source = sconst (Fin 0)\<rparr>" "[]"]
  by (auto simp: TILE_COUNT_def MID_HEX_def)

text \<open>
  Claim C7. The build produces exactly 60 tiles. The last child of the tile at index
  \<open>i\<close> is the label: the character \<^verbatim>\<open>#\<close>, the ordinal \<open>i + 1\<close> padded with zeros to three
  digits, two spaces, and the colour of the tile. The 60 ordinals are pairwise different,
  from \<^verbatim>\<open>001\<close> to \<^verbatim>\<open>060\<close>.
\<close>

theorem tile_labels:
  assumes "palette pg = Some old"
  shows "\<exists>tiles. buildPalette pg = Inr (pg\<lparr>palette := Some tiles, random_source := stl (random_source pg)\<rparr>)
           \<and> length tiles = 60
           \<and> (\<forall>i<60. last (children (tiles ! i)) =
                 DivText (str ''label'')
                   (35 # padStart 3 48 (String_nat (i + 1)) @ str ''  '' @ backgroundColor (tiles ! i))
               \<and> padStart 3 48 (String_nat (i + 1)) = [48, 48 + (i + 1) div 10, 48 + (i + 1) mod 10])
           \<and> inj_on (\<lambda>i. padStart 3 48 (String_nat (i + 1))) {..<60}
           \<and> padStart 3 48 (String_nat (0 + 1)) = str ''001''
           \<and> padStart 3 48 (String_nat (59 + 1)) = str ''060''"
proof -
  obtain tiles where t: "buildPalette pg = Inr (pg\<lparr>palette := Some tiles, random_source := stl (random_source pg)\<rparr>)"
    "length tiles = TILE_COUNT"
    "\<forall>j<TILE_COUNT. make_tile (avoid_mid (draw_index (shd (random_source pg)))) j = Inr (tiles ! j)"
    using buildPalette_tiles[OF assms] by blast
  have lab: "last (children (tiles ! i)) = DivText (str ''label'')
       (35 # padStart 3 48 (String_nat (i + 1)) @ str ''  '' @ backgroundColor (tiles ! i))"
    if "i < 60" for i
  proof -
    have "make_tile (avoid_mid (draw_index (shd (random_source pg)))) i = Inr (tiles ! i)"
      using t(3) that by (simp add: TILE_COUNT_def)
    then show ?thesis by (rule make_tile_label)
  qed
  have dig: "padStart 3 48 (String_nat (i + 1)) = [48, 48 + (i + 1) div 10, 48 + (i + 1) mod 10]"
    if "i < 60" for i
    using that ordinal_3digits[of i] by simp
  have inj: "inj_on (\<lambda>i. padStart 3 48 (String_nat (i + 1))) {..<60}"
  proof (rule inj_onI)
    fix i j :: nat
    assume "i \<in> {..<60}" "j \<in> {..<60}"
      and e: "padStart 3 48 (String_nat (i + 1)) = padStart 3 48 (String_nat (j + 1))"
    then have ij: "i < 60" "j < 60" by simp_all
    have "[48, 48 + (i + 1) div 10, 48 + (i + 1) mod 10]
        = [48, 48 + (j + 1) div 10, 48 + (j + 1) mod 10]"
      using e dig[OF ij(1)] dig[OF ij(2)] by (simp only:)
    then have "(i + 1) div 10 = (j + 1) div 10" "(i + 1) mod 10 = (j + 1) mod 10"
      by simp_all
    then have "i + 1 = j + 1" by (metis div_mult_mod_eq)
    then show "i = j" by simp
  qed
  have "padStart 3 48 (String_nat (0 + 1)) = str ''001''" "padStart 3 48 (String_nat (59 + 1)) = str ''060''"
    using dig[of 0] dig[of 59] by (simp_all add: str_def)
  then show ?thesis using t lab dig inj by (auto simp: TILE_COUNT_def)
qed

theorem tile_labels_witness:
  "\<exists>tiles. buildPalette \<lparr>palette = Some [], random_source = sconst (Fin 0)\<rparr>
       = Inr \<lparr>palette = Some tiles, random_source = sconst (Fin 0)\<rparr>
     \<and> length tiles = 60
     \<and> last (children (tiles ! 0)) =
         DivText (str ''label'') (str ''#001  '' @ backgroundColor (tiles ! 0))
     \<and> last (children (tiles ! 59)) =
         DivText (str ''label'') (str ''#060  '' @ backgroundColor (tiles ! 59))"
proof -
  obtain tiles where t:
    "buildPalette \<lparr>palette = Some [], random_source = sconst (Fin 0)\<rparr>
       = Inr \<lparr>palette = Some tiles, random_source = sconst (Fin 0)\<rparr>"
    "length tiles = 60"
    "\<forall>i<60. last (children (tiles ! i)) =
         DivText (str ''label'')
           (35 # padStart 3 48 (String_nat (i + 1)) @ str ''  '' @ backgroundColor (tiles ! i))
       \<and> padStart 3 48 (String_nat (i + 1)) = [48, 48 + (i + 1) div 10, 48 + (i + 1) mod 10]"
    using tile_labels[of "\<lparr>palette = Some [], random_source = sconst (Fin 0)\<rparr>" "[]"]
    by auto
  have "last (children (tiles ! 0)) =
         DivText (str ''label'') (str ''#001  '' @ backgroundColor (tiles ! 0))"
    using t(3)[rule_format, of 0] by (simp add: str_def)
  moreover have "last (children (tiles ! 59)) =
         DivText (str ''label'') (str ''#060  '' @ backgroundColor (tiles ! 59))"
    using t(3)[rule_format, of 59] by (simp add: str_def)
  ultimately show ?thesis using t(1,2) by blast
qed

text \<open>
  Claim C4. For every index \<open>r\<close> below \<open>TILE_COUNT\<close>, the interests index is \<open>r\<close> when
  \<open>r\<close> is not \<open>MID_INDEX\<close> and \<open>(r + 1) mod TILE_COUNT\<close> when it is, so it never equals
  \<open>MID_INDEX\<close>. Every value that \<^verbatim>\<open>Math.random\<close> can return, a binary64 value \<open>q\<close>
  with \<open>0 \<le> q < 1\<close>, is drawn to such an index.
\<close>

theorem interests_index_avoids_mid:
  "(\<forall>r<TILE_COUNT.
      avoid_mid (num r) = (if num_eq (num r) MID_INDEX then num ((r + 1) mod TILE_COUNT) else num r)
      \<and> \<not> num_eq (avoid_mid (num r)) MID_INDEX)
   \<and> (\<forall>q. 0 \<le> q \<and> q < 1 \<and> rnd q = Fin q \<longrightarrow> (\<exists>r<TILE_COUNT. draw_index (Fin q) = num r))"
  using draw_index_range
  by (auto simp: avoid_mid_num MID_INDEX_eq num_eq_num TILE_COUNT_def)

theorem interests_index_avoids_mid_witness:
  "avoid_mid (num 30) = num 31 \<and> avoid_mid (num 7) = num 7
     \<and> \<not> num_eq (avoid_mid (num 30)) MID_INDEX
     \<and> (\<exists>r<60. draw_index (Fin (1 / 2)) = num r)"
proof -
  have "rnd (1 / 2) = Fin (1 / 2)" using rnd_exact[of "- 1" 1] by (simp add: pow2_eval)
  then show ?thesis
    using interests_index_avoids_mid
    by (auto simp: TILE_COUNT_def MID_INDEX_eq num_eq_num)
qed

section \<open>Properties of hexToRgb\<close>

text \<open>
  Claim C2, as the code has it. \<^verbatim>\<open>hexToRgb\<close> fails exactly when the string left after one
  leading \<^verbatim>\<open>#\<close> is removed and the white space at both ends is then trimmed does not
  have 6 code units. When that string is 6 hexadecimal digits the result is the three
  bytes they denote, in either case of the letters, so \<^verbatim>\<open>#AABBCC\<close> and \<^verbatim>\<open>aabbcc\<close> give the
  same bytes, and \<^verbatim>\<open>bad\<close> fails.
\<close>

theorem hexToRgb_format:
  "((\<exists>e. hexToRgb s = Inl e) \<longleftrightarrow> length (trim (replace_leading_hash s)) \<noteq> 6)
   \<and> (trim (replace_leading_hash s) = [a, b, c, d, e, f]
        \<and> is_hex a \<and> is_hex b \<and> is_hex c \<and> is_hex d \<and> is_hex e \<and> is_hex f
      \<longrightarrow> hexToRgb s = Inr \<lparr>rgb_r = num (16 * hex_val a + hex_val b),
                             rgb_g = num (16 * hex_val c + hex_val d),
                             rgb_b = num (16 * hex_val e + hex_val f)\<rparr>
          \<and> 16 * hex_val a + hex_val b < 256
          \<and> 16 * hex_val c + hex_val d < 256
          \<and> 16 * hex_val e + hex_val f < 256)
   \<and> (65 \<le> a \<and> a \<le> 70 \<longrightarrow> hex_val (a + 32) = hex_val a)
   \<and> hexToRgb (str ''#AABBCC'') = hexToRgb (str ''aabbcc'')
   \<and> hexToRgb (str ''aabbcc'') = Inr \<lparr>rgb_r = Fin 170, rgb_g = Fin 187, rgb_b = Fin 204\<rparr>
   \<and> (\<exists>e. hexToRgb (str ''bad'') = Inl e)"
proof -
  have fail: "(\<exists>e. hexToRgb s = Inl e) \<longleftrightarrow> length (trim (replace_leading_hash s)) \<noteq> 6"
    by (simp add: hexToRgb_def Let_def)
  have ok: "hexToRgb s = Inr \<lparr>rgb_r = num (16 * hex_val a + hex_val b),
                             rgb_g = num (16 * hex_val c + hex_val d),
                             rgb_b = num (16 * hex_val e + hex_val f)\<rparr>
          \<and> 16 * hex_val a + hex_val b < 256
          \<and> 16 * hex_val c + hex_val d < 256
          \<and> 16 * hex_val e + hex_val f < 256"
    if "trim (replace_leading_hash s) = [a, b, c, d, e, f]"
      "is_hex a" "is_hex b" "is_hex c" "is_hex d" "is_hex e" "is_hex f"
    using that hexToRgb_hex6[of s a b c d e f]
      hex_val_lt[of a] hex_val_lt[of b] hex_val_lt[of c] hex_val_lt[of d] hex_val_lt[of e]
      hex_val_lt[of f]
    by simp
  have up: "hex_val (a + 32) = hex_val a" if "65 \<le> a" "a \<le> 70"
    using that by (simp add: hex_val_def)
  have lower: "hexToRgb (str ''aabbcc'')
      = Inr \<lparr>rgb_r = num (16 * hex_val 97 + hex_val 97), rgb_g = num (16 * hex_val 98 + hex_val 98),
             rgb_b = num (16 * hex_val 99 + hex_val 99)\<rparr>"
    by (rule hexToRgb_hex6) (simp_all add: str_def trim_hex is_hex_def)
  have upper: "hexToRgb (str ''#AABBCC'')
      = Inr \<lparr>rgb_r = num (16 * hex_val 65 + hex_val 65), rgb_g = num (16 * hex_val 66 + hex_val 66),
             rgb_b = num (16 * hex_val 67 + hex_val 67)\<rparr>"
    by (rule hexToRgb_hex6) (simp_all add: str_def trim_hex is_hex_def)
  have same: "hexToRgb (str ''#AABBCC'') = hexToRgb (str ''aabbcc'')"
    unfolding lower upper by (simp add: hex_val_def)
  have bytes: "hexToRgb (str ''aabbcc'')
      = Inr \<lparr>rgb_r = Fin 170, rgb_g = Fin 187, rgb_b = Fin 204\<rparr>"
    unfolding lower by (simp add: hex_val_def num_def)
  have bad: "\<exists>e. hexToRgb (str ''bad'') = Inl e"
    by (simp add: hexToRgb_bad)
  show ?thesis using fail ok up same bytes bad by blast
qed

theorem hexToRgb_format_witness:
  "hexToRgb (str '' 0fA9c3 '') = Inr \<lparr>rgb_r = num 15, rgb_g = num 169, rgb_b = num 195\<rparr>
   \<and> (\<exists>e. hexToRgb (str ''#12345'') = Inl e)"
proof -
  have t: "trim (replace_leading_hash (str '' 0fA9c3 '')) = [48, 102, 65, 57, 99, 51]"
    by (simp add: str_def trim_def is_ws_def)
  have h: "is_hex 48" "is_hex 102" "is_hex 65" "is_hex 57" "is_hex 99" "is_hex 51"
    by (simp_all add: is_hex_def)
  have "hexToRgb (str '' 0fA9c3 '') = Inr \<lparr>rgb_r = num 15, rgb_g = num 169, rgb_b = num 195\<rparr>"
    using hexToRgb_format[of "str '' 0fA9c3 ''" 48 102 65 57 99 51] t h
    by (simp add: hex_val_def)
  moreover have "length (trim (replace_leading_hash (str ''#12345''))) \<noteq> 6"
    by (simp add: str_def trim_def is_ws_def)
  then have "\<exists>e. hexToRgb (str ''#12345'') = Inl e"
    using hexToRgb_format[of "str ''#12345''"] by blast
  ultimately show ?thesis by blast
qed

text \<open>
  A cleaned string of 6 code units that are not hexadecimal digits is not rejected: each
  slice is read by \<^verbatim>\<open>parseInt\<close>, here to NaN. And a string such as \<^verbatim>\<open> #aabbcc\<close>, which
  is 6 hexadecimal digits once trimmed and stripped of its \<^verbatim>\<open>#\<close>, is rejected, because
  the \<^verbatim>\<open>#\<close> is looked for before the trimming.
\<close>

theorem hexToRgb_nonhex_counterexample:
  "trim (replace_leading_hash (str ''zzzzzz'')) = str ''zzzzzz''
   \<and> length (str ''zzzzzz'') = 6 \<and> \<not> is_hex 122
   \<and> hexToRgb (str ''zzzzzz'') = Inr \<lparr>rgb_r = NaN, rgb_g = NaN, rgb_b = NaN\<rparr>
   \<and> replace_leading_hash (trim (str '' #aabbcc'')) = str ''aabbcc''
   \<and> hexToRgb (str '' #aabbcc'') = Inl (Error (str ''Expected 6-digit hex, got:  #aabbcc''))"
  by (simp add: hexToRgb_zz hexToRgb_sp) (simp add: str_def trim_def is_ws_def is_hex_def)

section \<open>Certified steps of the arithmetic\<close>

text \<open>
  The result of an operator on given operands is checked against the definition of
  rounding: \<open>rnd_cert\<close> takes the integer \<open>m\<close> and the exponent \<open>k\<close> of the binary64
  value \<open>m * 2^k\<close> and asks that the exact result lies in the binade of \<open>k\<close> and within
  half a unit of that value; \<open>rnd_cert_tie\<close> covers an exact result half way between
  two values, where the even \<open>m\<close> is taken.
\<close>

lemma num_add_cert: "rnd (a + b) = Fin y \<Longrightarrow> num_add (Fin a) (Fin b) = Fin y"
  by (simp add: num_add_Fin)

lemma num_sub_cert: "rnd (a - b) = Fin y \<Longrightarrow> num_sub (Fin a) (Fin b) = Fin y"
  by (simp add: num_sub_Fin)

lemma num_mul_cert: "a \<noteq> 0 \<Longrightarrow> b \<noteq> 0 \<Longrightarrow> rnd (a * b) = Fin y \<Longrightarrow> num_mul (Fin a) (Fin b) = Fin y"
  by (simp add: num_mul_Fin)

lemma num_div_cert: "a \<noteq> 0 \<Longrightarrow> b \<noteq> 0 \<Longrightarrow> rnd (a / b) = Fin y \<Longrightarrow> num_div (Fin a) (Fin b) = Fin y"
  by (simp add: num_div_Fin)

lemma num_rem_cert:
  assumes "a \<noteq> 0" "b \<noteq> 0" "trunc (a / b) = n" "a - b * of_int n \<noteq> 0" "rnd (a - b * of_int n) = Fin y"
  shows "num_rem (Fin a) (Fin b) = Fin y"
  using assms by (simp add: num_rem_def Let_def)

lemma trunc_numeral [simp]: "trunc (numeral a / numeral b) = numeral a div numeral b"
  by (simp add: trunc_def)

lemma trunc_of_int [simp]: "trunc (of_int n) = n"
  by (simp add: trunc_def)

lemma trunc_numeral_int [simp]: "trunc (numeral a) = numeral a"
  using trunc_of_int[of "numeral a"] by simp

lemma round_even_tie:
  assumes "\<bar>x - of_int m\<bar> = 1 / 2" "even m"
  shows "round_even x = m"
proof -
  consider "x = of_int m + 1 / 2" | "x = of_int (m - 1) + 1 / 2"
    using assms(1) by (auto simp: abs_if split: if_splits)
  then show ?thesis
  proof cases
    case 1
    then have "\<lfloor>x\<rfloor> = m" by (simp add: floor_unique)
    then show ?thesis using 1 assms(2) by (simp add: round_even_def Let_def)
  next
    case 2
    then have f: "\<lfloor>x\<rfloor> = m - 1" by (intro floor_unique) simp_all
    have "x - of_int (m - 1) = 1 / 2" using 2 by simp
    then show ?thesis using assms(2) unfolding round_even_def Let_def f by simp
  qed
qed

lemma rval_cert_tie:
  assumes "pow2 (k + 52) \<le> \<bar>x\<bar>" "\<bar>x\<bar> < pow2 (k + 53)" "- 1074 \<le> k"
    and "\<bar>x - of_int m * pow2 k\<bar> = pow2 k / 2" "even m"
  shows "rval x = of_int m * pow2 k"
proof -
  have q: "quantum x = k"
    using quantum_eq[of "k + 52" x] assms(1,2,3) by (simp add: add.commute max_def)
  have "x / pow2 k - of_int m = (x - of_int m * pow2 k) / pow2 k"
    by (simp add: field_simps)
  then have "\<bar>x / pow2 k - of_int m\<bar> = \<bar>x - of_int m * pow2 k\<bar> / pow2 k"
    by (simp only: abs_divide abs_of_pos[OF pow2_pos])
  also have "\<dots> = 1 / 2" using assms(4) by simp
  finally have "round_even (x / pow2 k) = m" using assms(5) by (rule round_even_tie)
  then show ?thesis by (simp add: rval_def q)
qed

lemma rnd_cert_tie:
  assumes "y = of_int m * pow2 k"
    and "pow2 (k + 52) \<le> \<bar>x\<bar>" "\<bar>x\<bar> < pow2 (k + 53)" "- 1074 \<le> k" "k \<le> 970"
    and "\<bar>x - y\<bar> = pow2 k / 2" "even m"
  shows "rnd x = Fin y"
proof (rule rnd_Fin)
  show r: "rval x = y" using rval_cert_tie[of k x m] assms by simp
  have "\<bar>x\<bar> < pow2 1023" using assms(3,5) pow2_le_iff[of "k + 53" 1023] by linarith
  then have "x \<le> pow2 1023" "- pow2 1023 \<le> x" by linarith+
  then have "rval x \<le> rval (pow2 1023)" "- rval (pow2 1023) \<le> rval x"
    using rval_mono[of x "pow2 1023"] rval_mono[of "- pow2 1023" x] by (simp_all add: rval_minus)
  then have "\<bar>rval x\<bar> \<le> rval (pow2 1023)" by linarith
  also have "rval (pow2 1023) = pow2 1023"
    using rval_exact[of 1023 1] by simp
  finally show "\<bar>y\<bar> < pow2 1024" using r pow2_less_iff[of 1023 1024] by linarith
  have "0 < \<bar>x\<bar>" using assms(2) pow2_pos[of "k + 52"] by linarith
  show "y = 0 \<longrightarrow> 0 \<le> x"
  proof
    assume "y = 0"
    then have "\<bar>x\<bar> = pow2 k / 2" using assms(6) by simp
    moreover have "pow2 k \<le> pow2 (k + 52)" by simp
    then have "pow2 k / 2 < pow2 (k + 52)"
      using pow2_pos[of k] by linarith
    ultimately show "0 \<le> x" using assms(2) by linarith
  qed
qed

section \<open>The operators on finite numbers, by value\<close>

lemma rval_abs_le:
  assumes "\<bar>x\<bar> \<le> b" "rval b = b"
  shows "\<bar>rval x\<bar> \<le> b"
proof -
  have "x \<le> b" "- b \<le> x" using assms(1) by linarith+
  then have "rval x \<le> rval b" "rval (- b) \<le> rval x" by (simp_all add: rval_mono)
  then show ?thesis using assms(2) by (simp add: rval_minus abs_if)
qed

lemma rval_pow2: "- 1074 \<le> e \<Longrightarrow> rval (pow2 e) = pow2 e"
  using rval_exact[of e 1] by simp

lemma rnd_val:
  assumes "\<bar>x\<bar> \<le> pow2 1023"
  shows "finite_num (rnd x) \<and> val (rnd x) = rval x"
proof -
  have "\<bar>rval x\<bar> \<le> pow2 1023" using assms by (rule rval_abs_le) (simp add: rval_pow2)
  moreover have "pow2 1023 < pow2 1024" by simp
  ultimately have "\<bar>rval x\<bar> < pow2 1024" by linarith
  then show ?thesis by (auto simp: rnd_def Let_def abs_if split: if_splits)
qed

lemma finite_num_cases:
  assumes "finite_num a"
  obtains "a = NZero" | q where "a = Fin q"
  using assms by (cases a) auto

lemma num_add_val:
  assumes "finite_num a" "finite_num b" "\<bar>val a + val b\<bar> \<le> pow2 1023"
  shows "finite_num (num_add a b) \<and> val (num_add a b) = rval (val a + val b)"
  using assms rnd_val[of "val a + val b"]
  by (auto simp: num_add_def elim!: finite_num_cases)

lemma num_neg_val:
  assumes "finite_num a"
  shows "finite_num (num_neg a) \<and> val (num_neg a) = - val a"
  using assms by (auto elim!: finite_num_cases)

lemma num_sub_val:
  assumes "finite_num a" "finite_num b" "\<bar>val a - val b\<bar> \<le> pow2 1023"
  shows "finite_num (num_sub a b) \<and> val (num_sub a b) = rval (val a - val b)"
  using num_add_val[of a "num_neg b"] num_neg_val[of b] assms by (simp add: num_sub_def)

lemma num_mul_val:
  assumes "finite_num a" "finite_num b" "\<bar>val a * val b\<bar> \<le> pow2 1023"
  shows "finite_num (num_mul a b) \<and> val (num_mul a b) = rval (val a * val b)"
  using assms rnd_val[of "val a * val b"]
  by (auto simp: num_mul_def zero_of_def elim!: finite_num_cases)

lemma num_div_val:
  assumes "finite_num a" "finite_num b" "val b \<noteq> 0" "\<bar>val a / val b\<bar> \<le> pow2 1023"
  shows "finite_num (num_div a b) \<and> val (num_div a b) = rval (val a / val b)"
  using assms rnd_val[of "val a / val b"]
  by (auto simp: num_div_def zero_of_def elim!: finite_num_cases)

lemma num_lt_val: "finite_num a \<Longrightarrow> finite_num b \<Longrightarrow> num_lt a b \<longleftrightarrow> val a < val b"
  by (auto elim!: finite_num_cases)

lemma num_eq_val: "finite_num a \<Longrightarrow> finite_num b \<Longrightarrow> num_eq a b \<longleftrightarrow> val a = val b"
  by (auto elim!: finite_num_cases)

lemma num_le_val: "finite_num a \<Longrightarrow> finite_num b \<Longrightarrow> num_le a b \<longleftrightarrow> val a \<le> val b"
  by (auto simp: num_le_def num_lt_val num_eq_val)

lemma Math_abs_val: "finite_num a \<Longrightarrow> finite_num (Math_abs a) \<and> val (Math_abs a) = \<bar>val a\<bar>"
  by (auto elim!: finite_num_cases)

lemma floor_half [simp]: "\<lfloor>1 / 2 :: rat\<rfloor> = 0"
  by (simp add: floor_eq_iff)

lemma Math_round_val:
  "finite_num a \<Longrightarrow> finite_num (Math_round a) \<and> val (Math_round a) = of_int \<lfloor>val a + 1 / 2\<rfloor>"
  by (auto simp: Let_def elim!: finite_num_cases)

lemma rval_err_pow2:
  assumes "\<bar>x\<bar> \<le> pow2 e" "- 1021 \<le> e"
  shows "\<bar>rval x - x\<bar> \<le> pow2 (e - 54)"
proof (cases "\<bar>x\<bar> = pow2 e \<or> x = 0")
  case True
  then have "rval x = x"
    using rval_pow2[of e] assms(2) by (auto simp: abs_if rval_minus split: if_splits)
       (metis minus_minus rval_minus)
  then show ?thesis by simp
next
  case False
  then have "\<bar>x\<bar> < pow2 (e - 53 + 53)" "x \<noteq> 0" using assms(1) by simp_all
  then have "quantum x \<le> e - 53" using assms(2) by (intro quantum_le) simp_all
  then have "pow2 (quantum x) \<le> pow2 (e - 53)" by simp
  also have "pow2 (e - 53) = 2 * pow2 (e - 54)"
    using pow2_Suc[of "e - 54"] by simp
  finally show ?thesis using rval_err[of x] by linarith
qed

lemma rval_err_2:
  assumes "\<bar>x\<bar> \<le> 2"
  shows "\<bar>rval x - x\<bar> \<le> pow2 (- 53)"
  using rval_err_pow2[of x 1] assms by (simp add: pow2_eval)

section \<open>The anchors in HSL and three colours of the gradient\<close>

text \<open>
  Each step below is one operator of \<^verbatim>\<open>rgbToHsl\<close>, \<^verbatim>\<open>lerpHue\<close>, \<^verbatim>\<open>lerp\<close> or
  \<^verbatim>\<open>hslToHex\<close> at the operands that the run of the program reaches, in binary64.
\<close>

lemma rgbToHsl_START:
  "rgbToHsl (Fin 58) (Fin 59) (Fin 35) =
     \<lparr>hsl_h = (Fin (4398046511104001 / 70368744177664)),
      hsl_s = (Fin (3593297575029651 / 140737488355328)),
      hsl_l = (Fin (5187970158980719 / 281474976710656))\<rparr>"
proof -
  have f1: "num_div (Fin 58) (Fin 255)
      = (Fin (8194785204313373 / 36028797018963968))"
    by (intro num_div_cert rnd_cert[where m = "8194785204313373" and k = "- 55"])
      (simp_all add: pow2_eval)
  have f2: "num_div (Fin 59) (Fin 255)
      = (Fin (4168037302193871 / 18014398509481984))"
    by (intro num_div_cert rnd_cert[where m = "8336074604387742" and k = "- 55"])
      (simp_all add: pow2_eval)
  have f3: "num_div (Fin 35) (Fin 255)
      = (Fin (2472564501301449 / 18014398509481984))"
    by (intro num_div_cert rnd_cert[where m = "4945129002602898" and k = "- 55"])
      (simp_all add: pow2_eval)
  have f4: "num_sub (Fin (4168037302193871 / 18014398509481984)) (Fin (2472564501301449 / 18014398509481984))
      = (Fin (847736400446211 / 9007199254740992))"
    by (intro num_sub_cert rnd_cert[where m = "6781891203569688" and k = "- 56"])
      (simp_all add: pow2_eval)
  have f5: "num_sub (Fin (2472564501301449 / 18014398509481984)) (Fin (8194785204313373 / 36028797018963968))
      = (Fin (- (3249656201710475 / 36028797018963968)))"
    by (intro num_sub_cert rnd_cert[where m = "- 6499312403420950" and k = "- 56"])
      (simp_all add: pow2_eval)
  have f6: "num_div (Fin (- (3249656201710475 / 36028797018963968))) (Fin (847736400446211 / 9007199254740992))
      = (Fin (- (8631899285793449 / 9007199254740992)))"
    by (intro num_div_cert rnd_cert[where m = "- 8631899285793449" and k = "- 53"])
      (simp_all add: pow2_eval)
  have f7: "num_add (Fin (- (8631899285793449 / 9007199254740992))) (Fin 2)
      = (Fin (1172812402961067 / 1125899906842624))"
    by (intro num_add_cert rnd_cert_tie[where m = "4691249611844268" and k = "- 52"])
      (simp_all add: pow2_eval)
  have f8: "num_mul (Fin (1172812402961067 / 1125899906842624)) (Fin 60)
      = (Fin (4398046511104001 / 70368744177664))"
    by (intro num_mul_cert rnd_cert_tie[where m = "8796093022208002" and k = "- 47"])
      (simp_all add: pow2_eval)
  have f9: "num_add (Fin (4168037302193871 / 18014398509481984)) (Fin (2472564501301449 / 18014398509481984))
      = (Fin (830075225436915 / 2251799813685248))"
    by (intro num_add_cert rnd_cert[where m = "6640601803495320" and k = "- 54"])
      (simp_all add: pow2_eval)
  have f10: "num_div (Fin (830075225436915 / 2251799813685248)) (Fin 2)
      = (Fin (830075225436915 / 4503599627370496))"
    by (intro num_div_cert rnd_cert[where m = "6640601803495320" and k = "- 55"])
      (simp_all add: pow2_eval)
  have f11: "num_mul (Fin 2) (Fin (830075225436915 / 4503599627370496))
      = (Fin (830075225436915 / 2251799813685248))"
    by (intro num_mul_cert rnd_cert[where m = "6640601803495320" and k = "- 54"])
      (simp_all add: pow2_eval)
  have f12: "num_sub (Fin (830075225436915 / 2251799813685248)) (Fin 1)
      = (Fin (- (1421724588248333 / 2251799813685248)))"
    by (intro num_sub_cert rnd_cert[where m = "- 5686898352993332" and k = "- 53"])
      (simp_all add: pow2_eval)
  have f13: "num_sub (Fin 1) (Fin (1421724588248333 / 2251799813685248))
      = (Fin (830075225436915 / 2251799813685248))"
    by (intro num_sub_cert rnd_cert[where m = "6640601803495320" and k = "- 54"])
      (simp_all add: pow2_eval)
  have f14: "num_div (Fin (847736400446211 / 9007199254740992)) (Fin (830075225436915 / 2251799813685248))
      = (Fin (4599420896037953 / 18014398509481984))"
    by (intro num_div_cert rnd_cert[where m = "4599420896037953" and k = "- 54"])
      (simp_all add: pow2_eval)
  have f15: "num_mul (Fin (4599420896037953 / 18014398509481984)) (Fin 100)
      = (Fin (3593297575029651 / 140737488355328))"
    by (intro num_mul_cert rnd_cert[where m = "7186595150059302" and k = "- 48"])
      (simp_all add: pow2_eval)
  have f16: "num_mul (Fin (830075225436915 / 4503599627370496)) (Fin 100)
      = (Fin (5187970158980719 / 281474976710656))"
    by (intro num_mul_cert rnd_cert[where m = "5187970158980719" and k = "- 48"])
      (simp_all add: pow2_eval)
  show ?thesis
    by (simp add: rgbToHsl_def Let_def Math_max_def Math_min_def max_step_def min_step_def
      f1 f2 f3 f4 f5 f6 f7 f8 f9 f10 f11 f12 f13 f14 f15 f16)
qed

lemma rgbToHsl_MID:
  "rgbToHsl (Fin 115) (Fin 106) (Fin 70) =
     \<lparr>hsl_h = (Fin 48),
      hsl_s = (Fin (6846688622691631 / 281474976710656)),
      hsl_l = (Fin (1276295850281161 / 35184372088832))\<rparr>"
proof -
  have f1: "num_div (Fin 115) (Fin 255)
      = (Fin (8124140504276189 / 18014398509481984))"
    by (intro num_div_cert rnd_cert[where m = "8124140504276189" and k = "- 54"])
      (simp_all add: pow2_eval)
  have f2: "num_div (Fin 106) (Fin 255)
      = (Fin (7488338203941531 / 18014398509481984))"
    by (intro num_div_cert rnd_cert[where m = "7488338203941531" and k = "- 54"])
      (simp_all add: pow2_eval)
  have f3: "num_div (Fin 70) (Fin 255)
      = (Fin (2472564501301449 / 9007199254740992))"
    by (intro num_div_cert rnd_cert[where m = "4945129002602898" and k = "- 54"])
      (simp_all add: pow2_eval)
  have f4: "num_sub (Fin (8124140504276189 / 18014398509481984)) (Fin (2472564501301449 / 9007199254740992))
      = (Fin (3179011501673291 / 18014398509481984))"
    by (intro num_sub_cert rnd_cert[where m = "6358023003346582" and k = "- 55"])
      (simp_all add: pow2_eval)
  have f5: "num_sub (Fin (7488338203941531 / 18014398509481984)) (Fin (2472564501301449 / 9007199254740992))
      = (Fin (2543209201338633 / 18014398509481984))"
    by (intro num_sub_cert rnd_cert[where m = "5086418402677266" and k = "- 55"])
      (simp_all add: pow2_eval)
  have f6: "num_div (Fin (2543209201338633 / 18014398509481984)) (Fin (3179011501673291 / 18014398509481984))
      = (Fin (3602879701896397 / 4503599627370496))"
    by (intro num_div_cert rnd_cert[where m = "7205759403792794" and k = "- 53"])
      (simp_all add: pow2_eval)
  have f7: "num_rem (Fin (3602879701896397 / 4503599627370496)) (Fin 6)
      = (Fin (3602879701896397 / 4503599627370496))"
    by (intro num_rem_cert[where n = "0"] rnd_cert[where m = "7205759403792794" and k = "- 53"])
      (simp_all add: pow2_eval)
  have f8: "num_mul (Fin (3602879701896397 / 4503599627370496)) (Fin 60)
      = (Fin 48)"
    by (intro num_mul_cert rnd_cert[where m = "6755399441055744" and k = "- 47"])
      (simp_all add: pow2_eval)
  have f9: "num_add (Fin (8124140504276189 / 18014398509481984)) (Fin (2472564501301449 / 9007199254740992))
      = (Fin (816829344179943 / 1125899906842624))"
    by (intro num_add_cert rnd_cert_tie[where m = "6534634753439544" and k = "- 53"])
      (simp_all add: pow2_eval)
  have f10: "num_div (Fin (816829344179943 / 1125899906842624)) (Fin 2)
      = (Fin (816829344179943 / 2251799813685248))"
    by (intro num_div_cert rnd_cert[where m = "6534634753439544" and k = "- 54"])
      (simp_all add: pow2_eval)
  have f11: "num_mul (Fin 2) (Fin (816829344179943 / 2251799813685248))
      = (Fin (816829344179943 / 1125899906842624))"
    by (intro num_mul_cert rnd_cert[where m = "6534634753439544" and k = "- 53"])
      (simp_all add: pow2_eval)
  have f12: "num_sub (Fin (816829344179943 / 1125899906842624)) (Fin 1)
      = (Fin (- (309070562662681 / 1125899906842624)))"
    by (intro num_sub_cert rnd_cert[where m = "- 4945129002602896" and k = "- 54"])
      (simp_all add: pow2_eval)
  have f13: "num_sub (Fin 1) (Fin (309070562662681 / 1125899906842624))
      = (Fin (816829344179943 / 1125899906842624))"
    by (intro num_sub_cert rnd_cert[where m = "6534634753439544" and k = "- 53"])
      (simp_all add: pow2_eval)
  have f14: "num_div (Fin (3179011501673291 / 18014398509481984)) (Fin (816829344179943 / 1125899906842624))
      = (Fin (1095470179630661 / 4503599627370496))"
    by (intro num_div_cert rnd_cert[where m = "8763761437045288" and k = "- 55"])
      (simp_all add: pow2_eval)
  have f15: "num_mul (Fin (1095470179630661 / 4503599627370496)) (Fin 100)
      = (Fin (6846688622691631 / 281474976710656))"
    by (intro num_mul_cert rnd_cert[where m = "6846688622691631" and k = "- 48"])
      (simp_all add: pow2_eval)
  have f16: "num_mul (Fin (816829344179943 / 2251799813685248)) (Fin 100)
      = (Fin (1276295850281161 / 35184372088832))"
    by (intro num_mul_cert rnd_cert[where m = "5105183401124644" and k = "- 47"])
      (simp_all add: pow2_eval)
  show ?thesis
    by (simp add: rgbToHsl_def Let_def Math_max_def Math_min_def max_step_def min_step_def
      f1 f2 f3 f4 f5 f6 f7 f8 f9 f10 f11 f12 f13 f14 f15 f16)
qed

lemma rgbToHsl_END:
  "rgbToHsl (Fin 212) (Fin 199) (Fin 166) =
     \<lparr>hsl_h = (Fin (6057831020511943 / 140737488355328)),
      hsl_s = (Fin (2452244115282231 / 70368744177664)),
      hsl_l = (Fin (651945718116593 / 8796093022208))\<rparr>"
proof -
  have f1: "num_div (Fin 212) (Fin 255)
      = (Fin (7488338203941531 / 9007199254740992))"
    by (intro num_div_cert rnd_cert[where m = "7488338203941531" and k = "- 53"])
      (simp_all add: pow2_eval)
  have f2: "num_div (Fin 199) (Fin 255)
      = (Fin (7029147653699833 / 9007199254740992))"
    by (intro num_div_cert rnd_cert[where m = "7029147653699833" and k = "- 53"])
      (simp_all add: pow2_eval)
  have f3: "num_div (Fin 166) (Fin 255)
      = (Fin (5863510103086293 / 9007199254740992))"
    by (intro num_div_cert rnd_cert[where m = "5863510103086293" and k = "- 53"])
      (simp_all add: pow2_eval)
  have f4: "num_sub (Fin (7488338203941531 / 9007199254740992)) (Fin (5863510103086293 / 9007199254740992))
      = (Fin (812414050427619 / 4503599627370496))"
    by (intro num_sub_cert rnd_cert[where m = "6499312403420952" and k = "- 55"])
      (simp_all add: pow2_eval)
  have f5: "num_sub (Fin (7029147653699833 / 9007199254740992)) (Fin (5863510103086293 / 9007199254740992))
      = (Fin (291409387653385 / 2251799813685248))"
    by (intro num_sub_cert rnd_cert[where m = "4662550202454160" and k = "- 55"])
      (simp_all add: pow2_eval)
  have f6: "num_div (Fin (291409387653385 / 2251799813685248)) (Fin (812414050427619 / 4503599627370496))
      = (Fin (3230843210939703 / 4503599627370496))"
    by (intro num_div_cert rnd_cert[where m = "6461686421879406" and k = "- 53"])
      (simp_all add: pow2_eval)
  have f7: "num_rem (Fin (3230843210939703 / 4503599627370496)) (Fin 6)
      = (Fin (3230843210939703 / 4503599627370496))"
    by (intro num_rem_cert[where n = "0"] rnd_cert[where m = "6461686421879406" and k = "- 53"])
      (simp_all add: pow2_eval)
  have f8: "num_mul (Fin (3230843210939703 / 4503599627370496)) (Fin 60)
      = (Fin (6057831020511943 / 140737488355328))"
    by (intro num_mul_cert rnd_cert[where m = "6057831020511943" and k = "- 47"])
      (simp_all add: pow2_eval)
  have f9: "num_add (Fin (7488338203941531 / 9007199254740992)) (Fin (5863510103086293 / 9007199254740992))
      = (Fin (834490519189239 / 562949953421312))"
    by (intro num_add_cert rnd_cert[where m = "6675924153513912" and k = "- 52"])
      (simp_all add: pow2_eval)
  have f10: "num_div (Fin (834490519189239 / 562949953421312)) (Fin 2)
      = (Fin (834490519189239 / 1125899906842624))"
    by (intro num_div_cert rnd_cert[where m = "6675924153513912" and k = "- 53"])
      (simp_all add: pow2_eval)
  have f11: "num_mul (Fin 2) (Fin (834490519189239 / 1125899906842624))
      = (Fin (834490519189239 / 562949953421312))"
    by (intro num_mul_cert rnd_cert[where m = "6675924153513912" and k = "- 52"])
      (simp_all add: pow2_eval)
  have f12: "num_sub (Fin (834490519189239 / 562949953421312)) (Fin 1)
      = (Fin (271540565767927 / 562949953421312))"
    by (intro num_sub_cert rnd_cert[where m = "8689298104573664" and k = "- 54"])
      (simp_all add: pow2_eval)
  have f13: "num_sub (Fin 1) (Fin (271540565767927 / 562949953421312))
      = (Fin (291409387653385 / 562949953421312))"
    by (intro num_sub_cert rnd_cert[where m = "4662550202454160" and k = "- 53"])
      (simp_all add: pow2_eval)
  have f14: "num_div (Fin (812414050427619 / 4503599627370496)) (Fin (291409387653385 / 562949953421312))
      = (Fin (6277744935122511 / 18014398509481984))"
    by (intro num_div_cert rnd_cert[where m = "6277744935122511" and k = "- 54"])
      (simp_all add: pow2_eval)
  have f15: "num_mul (Fin (6277744935122511 / 18014398509481984)) (Fin 100)
      = (Fin (2452244115282231 / 70368744177664))"
    by (intro num_mul_cert rnd_cert[where m = "4904488230564462" and k = "- 47"])
      (simp_all add: pow2_eval)
  have f16: "num_mul (Fin (834490519189239 / 1125899906842624)) (Fin 100)
      = (Fin (651945718116593 / 8796093022208))"
    by (intro num_mul_cert rnd_cert[where m = "5215565744932744" and k = "- 46"])
      (simp_all add: pow2_eval)
  show ?thesis
    by (simp add: rgbToHsl_def Let_def Math_max_def Math_min_def max_step_def min_step_def
      f1 f2 f3 f4 f5 f6 f7 f8 f9 f10 f11 f12 f13 f14 f15 f16)
qed

lemma makeGreen_0: "makeGreen (num 0) (num TILE_COUNT) = Inr (str ''#3a3b23'')"
proof -
  have f1: "num_sub (Fin 60) (Fin 1)
      = (Fin 59)"
    by (intro num_sub_cert rnd_cert[where m = "8303511812964352" and k = "- 47"])
      (simp_all add: pow2_eval)
  have f2: "num_div (Fin 0) (Fin 59)
      = (Fin 0)"
    by (simp add: num_div_def zero_of_def inf_of_def)
  have f3: "num_div (Fin 0) (Fin (1 / 2))
      = (Fin 0)"
    by (simp add: num_div_def zero_of_def inf_of_def)
  have f4: "num_sub (Fin 48) (Fin (4398046511104001 / 70368744177664))
      = (Fin (- (1020346790576129 / 70368744177664)))"
    by (intro num_sub_cert rnd_cert[where m = "- 8162774324609032" and k = "- 49"])
      (simp_all add: pow2_eval)
  have f5: "num_add (Fin (- (1020346790576129 / 70368744177664))) (Fin 540)
      = (Fin (1051 / 2))"
    by (intro num_add_cert rnd_cert[where m = "4622346883170304" and k = "- 43"])
      (simp_all add: pow2_eval)
  have f6: "num_rem (Fin (1051 / 2)) (Fin 360)
      = (Fin (331 / 2))"
    by (intro num_rem_cert[where n = "1"] rnd_cert[where m = "5823013580701696" and k = "- 45"])
      (simp_all add: pow2_eval)
  have f7: "num_sub (Fin (331 / 2)) (Fin 180)
      = (Fin (- (29 / 2)))"
    by (intro num_sub_cert rnd_cert[where m = "- 8162774324609024" and k = "- 49"])
      (simp_all add: pow2_eval)
  have f8: "num_mul (Fin (- (29 / 2))) (Fin 0)
      = NZero"
    by (simp add: num_mul_def zero_of_def inf_of_def)
  have f9: "num_add (Fin (4398046511104001 / 70368744177664)) NZero
      = (Fin (4398046511104001 / 70368744177664))"
    by (simp add: num_add_def) (intro rnd_cert[where m = "8796093022208002" and k = "- 47"]; simp add: pow2_eval)
  have f10: "num_add (Fin (4398046511104001 / 70368744177664)) (Fin 360)
      = (Fin (845 / 2))"
    by (intro num_add_cert rnd_cert[where m = "7432698603765760" and k = "- 44"])
      (simp_all add: pow2_eval)
  have f11: "num_rem (Fin (845 / 2)) (Fin 360)
      = (Fin (125 / 2))"
    by (intro num_rem_cert[where n = "1"] rnd_cert[where m = "8796093022208000" and k = "- 47"])
      (simp_all add: pow2_eval)
  have f12: "num_sub (Fin (6846688622691631 / 281474976710656)) (Fin (3593297575029651 / 140737488355328))
      = (Fin (- (339906527367671 / 281474976710656)))"
    by (intro num_sub_cert rnd_cert[where m = "- 5438504437882736" and k = "- 52"])
      (simp_all add: pow2_eval)
  have f13: "num_mul (Fin (- (339906527367671 / 281474976710656))) (Fin 0)
      = NZero"
    by (simp add: num_mul_def zero_of_def inf_of_def)
  have f14: "num_add (Fin (3593297575029651 / 140737488355328)) NZero
      = (Fin (3593297575029651 / 140737488355328))"
    by (simp add: num_add_def) (intro rnd_cert[where m = "7186595150059302" and k = "- 48"]; simp add: pow2_eval)
  have f15: "num_sub (Fin (1276295850281161 / 35184372088832)) (Fin (5187970158980719 / 281474976710656))
      = (Fin (5022396643268569 / 281474976710656))"
    by (intro num_sub_cert rnd_cert[where m = "5022396643268569" and k = "- 48"])
      (simp_all add: pow2_eval)
  have f16: "num_mul (Fin (5022396643268569 / 281474976710656)) (Fin 0)
      = (Fin 0)"
    by (simp add: num_mul_def zero_of_def inf_of_def)
  have f17: "num_add (Fin (5187970158980719 / 281474976710656)) (Fin 0)
      = (Fin (5187970158980719 / 281474976710656))"
    by (simp add: num_add_def) (intro rnd_cert[where m = "5187970158980719" and k = "- 48"]; simp add: pow2_eval)
  have f18: "num_div (Fin (3593297575029651 / 140737488355328)) (Fin 100)
      = (Fin (4599420896037953 / 18014398509481984))"
    by (intro num_div_cert rnd_cert[where m = "4599420896037953" and k = "- 54"])
      (simp_all add: pow2_eval)
  have f19: "num_div (Fin (5187970158980719 / 281474976710656)) (Fin 100)
      = (Fin (830075225436915 / 4503599627370496))"
    by (intro num_div_cert rnd_cert[where m = "6640601803495320" and k = "- 55"])
      (simp_all add: pow2_eval)
  have f20: "num_mul (Fin 2) (Fin (830075225436915 / 4503599627370496))
      = (Fin (830075225436915 / 2251799813685248))"
    by (intro num_mul_cert rnd_cert[where m = "6640601803495320" and k = "- 54"])
      (simp_all add: pow2_eval)
  have f21: "num_sub (Fin (830075225436915 / 2251799813685248)) (Fin 1)
      = (Fin (- (1421724588248333 / 2251799813685248)))"
    by (intro num_sub_cert rnd_cert[where m = "- 5686898352993332" and k = "- 53"])
      (simp_all add: pow2_eval)
  have f22: "num_sub (Fin 1) (Fin (1421724588248333 / 2251799813685248))
      = (Fin (830075225436915 / 2251799813685248))"
    by (intro num_sub_cert rnd_cert[where m = "6640601803495320" and k = "- 54"])
      (simp_all add: pow2_eval)
  have f23: "num_mul (Fin (830075225436915 / 2251799813685248)) (Fin (4599420896037953 / 18014398509481984))
      = (Fin (847736400446211 / 9007199254740992))"
    by (intro num_mul_cert rnd_cert[where m = "6781891203569688" and k = "- 56"])
      (simp_all add: pow2_eval)
  have f24: "num_div (Fin (125 / 2)) (Fin 60)
      = (Fin (4691249611844267 / 4503599627370496))"
    by (intro num_div_cert rnd_cert[where m = "4691249611844267" and k = "- 52"])
      (simp_all add: pow2_eval)
  have f25: "num_rem (Fin (4691249611844267 / 4503599627370496)) (Fin 2)
      = (Fin (4691249611844267 / 4503599627370496))"
    by (intro num_rem_cert[where n = "0"] rnd_cert[where m = "4691249611844267" and k = "- 52"])
      (simp_all add: pow2_eval)
  have f26: "num_sub (Fin (4691249611844267 / 4503599627370496)) (Fin 1)
      = (Fin (187649984473771 / 4503599627370496))"
    by (intro num_sub_cert rnd_cert[where m = "6004799503160672" and k = "- 57"])
      (simp_all add: pow2_eval)
  have f27: "num_sub (Fin 1) (Fin (187649984473771 / 4503599627370496))
      = (Fin (4315949642896725 / 4503599627370496))"
    by (intro num_sub_cert rnd_cert[where m = "8631899285793450" and k = "- 53"])
      (simp_all add: pow2_eval)
  have f28: "num_mul (Fin (847736400446211 / 9007199254740992)) (Fin (4315949642896725 / 4503599627370496))
      = (Fin (3249656201710475 / 36028797018963968))"
    by (intro num_mul_cert rnd_cert[where m = "6499312403420950" and k = "- 56"])
      (simp_all add: pow2_eval)
  have f29: "num_div (Fin (847736400446211 / 9007199254740992)) (Fin 2)
      = (Fin (847736400446211 / 18014398509481984))"
    by (intro num_div_cert rnd_cert[where m = "6781891203569688" and k = "- 57"])
      (simp_all add: pow2_eval)
  have f30: "num_sub (Fin (830075225436915 / 4503599627370496)) (Fin (847736400446211 / 18014398509481984))
      = (Fin (2472564501301449 / 18014398509481984))"
    by (intro num_sub_cert rnd_cert[where m = "4945129002602898" and k = "- 55"])
      (simp_all add: pow2_eval)
  have f31: "num_add (Fin (3249656201710475 / 36028797018963968)) (Fin (2472564501301449 / 18014398509481984))
      = (Fin (8194785204313373 / 36028797018963968))"
    by (intro num_add_cert rnd_cert[where m = "8194785204313373" and k = "- 55"])
      (simp_all add: pow2_eval)
  have f32: "num_mul (Fin (8194785204313373 / 36028797018963968)) (Fin 255)
      = (Fin 58)"
    by (intro num_mul_cert rnd_cert[where m = "8162774324609024" and k = "- 47"])
      (simp_all add: pow2_eval)
  have f33: "num_add (Fin (847736400446211 / 9007199254740992)) (Fin (2472564501301449 / 18014398509481984))
      = (Fin (4168037302193871 / 18014398509481984))"
    by (intro num_add_cert rnd_cert[where m = "8336074604387742" and k = "- 55"])
      (simp_all add: pow2_eval)
  have f34: "num_mul (Fin (4168037302193871 / 18014398509481984)) (Fin 255)
      = (Fin 59)"
    by (intro num_mul_cert rnd_cert[where m = "8303511812964352" and k = "- 47"])
      (simp_all add: pow2_eval)
  have f35: "num_add (Fin 0) (Fin (2472564501301449 / 18014398509481984))
      = (Fin (2472564501301449 / 18014398509481984))"
    by (simp add: num_add_def) (intro rnd_cert[where m = "4945129002602898" and k = "- 55"]; simp add: pow2_eval)
  have f36: "num_mul (Fin (2472564501301449 / 18014398509481984)) (Fin 255)
      = (Fin 35)"
    by (intro num_mul_cert rnd_cert[where m = "4925812092436480" and k = "- 47"])
      (simp_all add: pow2_eval)
  have ch: "hsl_channels (Fin (125 / 2))
      (Fin (3593297575029651 / 140737488355328))
      (Fin (5187970158980719 / 281474976710656))
    = ((Fin 58), (Fin 59), (Fin 35))"
    by (simp add: hsl_channels_def Let_def num_le_def
      f1 f2 f3 f4 f5 f6 f7 f8 f9 f10 f11 f12 f13 f14 f15 f16 f17 f18 f19 f20 f21 f22 f23
      f24 f25 f26 f27 f28 f29 f30 f31 f32 f33 f34 f35 f36)
  have hx: "hslToHex (Fin (125 / 2))
      (Fin (3593297575029651 / 140737488355328))
      (Fin (5187970158980719 / 281474976710656))
    = str ''#3a3b23''"
    by (simp add: hslToHex_def ch toHex_def padStart_def to_digits.simps digit_char_def str_def)
  show ?thesis
    by (simp add: makeGreen_def Let_def num_def TILE_COUNT_def num_le_def hexToRgb_START hexToRgb_MID
      hexToRgb_END rgbToHsl_START rgbToHsl_MID rgbToHsl_END lerp_def lerpHue_def hx
      f1 f2 f3 f4 f5 f6 f7 f8 f9 f10 f11 f12 f13 f14 f15 f16 f17 f18 f19 f20 f21 f22 f23
      f24 f25 f26 f27 f28 f29 f30 f31 f32 f33 f34 f35 f36)
qed

lemma makeGreen_30: "makeGreen (num 30) (num TILE_COUNT) = Inr (str ''#756c47'')"
proof -
  have f1: "num_sub (Fin 60) (Fin 1)
      = (Fin 59)"
    by (intro num_sub_cert rnd_cert[where m = "8303511812964352" and k = "- 47"])
      (simp_all add: pow2_eval)
  have f2: "num_div (Fin 30) (Fin 59)
      = (Fin (1144982956111143 / 2251799813685248))"
    by (intro num_div_cert rnd_cert[where m = "4579931824444572" and k = "- 53"])
      (simp_all add: pow2_eval)
  have f3: "num_sub (Fin (1144982956111143 / 2251799813685248)) (Fin (1 / 2))
      = (Fin (19083049268519 / 2251799813685248))"
    by (intro num_sub_cert rnd_cert[where m = "4885260612740864" and k = "- 59"])
      (simp_all add: pow2_eval)
  have f4: "num_div (Fin (19083049268519 / 2251799813685248)) (Fin (1 / 2))
      = (Fin (19083049268519 / 1125899906842624))"
    by (intro num_div_cert rnd_cert[where m = "4885260612740864" and k = "- 58"])
      (simp_all add: pow2_eval)
  have f5: "num_sub (Fin (6057831020511943 / 140737488355328)) (Fin 48)
      = (Fin (- (697568420543801 / 140737488355328)))"
    by (intro num_sub_cert rnd_cert[where m = "- 5580547364350408" and k = "- 50"])
      (simp_all add: pow2_eval)
  have f6: "num_add (Fin (- (697568420543801 / 140737488355328))) (Fin 540)
      = (Fin (1176573051427083 / 2199023255552))"
    by (intro num_add_cert rnd_cert[where m = "4706292205708332" and k = "- 43"])
      (simp_all add: pow2_eval)
  have f7: "num_rem (Fin (1176573051427083 / 2199023255552)) (Fin 360)
      = (Fin (384924679428363 / 2199023255552))"
    by (intro num_rem_cert[where n = "1"] rnd_cert[where m = "6158794870853808" and k = "- 45"])
      (simp_all add: pow2_eval)
  have f8: "num_sub (Fin (384924679428363 / 2199023255552)) (Fin 180)
      = (Fin (- (10899506570997 / 2199023255552)))"
    by (intro num_sub_cert rnd_cert[where m = "- 5580547364350464" and k = "- 50"])
      (simp_all add: pow2_eval)
  have f9: "num_mul (Fin (- (10899506570997 / 2199023255552))) (Fin (19083049268519 / 1125899906842624))
      = (Fin (- (6053475107092013 / 72057594037927936)))"
    by (intro num_mul_cert rnd_cert[where m = "- 6053475107092013" and k = "- 56"])
      (simp_all add: pow2_eval)
  have f10: "num_add (Fin 48) (Fin (- (6053475107092013 / 72057594037927936)))
      = (Fin (6743576247487205 / 140737488355328))"
    by (intro num_add_cert rnd_cert[where m = "6743576247487205" and k = "- 47"])
      (simp_all add: pow2_eval)
  have f11: "num_add (Fin (6743576247487205 / 140737488355328)) (Fin 360)
      = (Fin (7176134006925661 / 17592186044416))"
    by (intro num_add_cert rnd_cert[where m = "7176134006925661" and k = "- 44"])
      (simp_all add: pow2_eval)
  have f12: "num_rem (Fin (7176134006925661 / 17592186044416)) (Fin 360)
      = (Fin (842947030935901 / 17592186044416))"
    by (intro num_rem_cert[where n = "1"] rnd_cert[where m = "6743576247487208" and k = "- 47"])
      (simp_all add: pow2_eval)
  have f13: "num_sub (Fin (2452244115282231 / 70368744177664)) (Fin (6846688622691631 / 281474976710656))
      = (Fin (2962287838437293 / 281474976710656))"
    by (intro num_sub_cert rnd_cert[where m = "5924575676874586" and k = "- 49"])
      (simp_all add: pow2_eval)
  have f14: "num_mul (Fin (2962287838437293 / 281474976710656)) (Fin (19083049268519 / 1125899906842624))
      = (Fin (3213329180677733 / 18014398509481984))"
    by (intro num_mul_cert rnd_cert[where m = "6426658361355466" and k = "- 55"])
      (simp_all add: pow2_eval)
  have f15: "num_add (Fin (6846688622691631 / 281474976710656)) (Fin (3213329180677733 / 18014398509481984))
      = (Fin (6896896891139721 / 281474976710656))"
    by (intro num_add_cert rnd_cert[where m = "6896896891139721" and k = "- 48"])
      (simp_all add: pow2_eval)
  have f16: "num_sub (Fin (651945718116593 / 8796093022208)) (Fin (1276295850281161 / 35184372088832))
      = (Fin (1331487022185211 / 35184372088832))"
    by (intro num_sub_cert rnd_cert[where m = "5325948088740844" and k = "- 47"])
      (simp_all add: pow2_eval)
  have f17: "num_mul (Fin (1331487022185211 / 35184372088832)) (Fin (19083049268519 / 1125899906842624))
      = (Fin (722162452710621 / 1125899906842624))"
    by (intro num_mul_cert rnd_cert[where m = "5777299621684968" and k = "- 53"])
      (simp_all add: pow2_eval)
  have f18: "num_add (Fin (1276295850281161 / 35184372088832)) (Fin (722162452710621 / 1125899906842624))
      = (Fin (81178964183023 / 2199023255552))"
    by (intro num_add_cert rnd_cert[where m = "5195453707713472" and k = "- 47"])
      (simp_all add: pow2_eval)
  have f19: "num_div (Fin (6896896891139721 / 281474976710656)) (Fin 100)
      = (Fin (8828028020658843 / 36028797018963968))"
    by (intro num_div_cert rnd_cert[where m = "8828028020658843" and k = "- 55"])
      (simp_all add: pow2_eval)
  have f20: "num_div (Fin (81178964183023 / 2199023255552)) (Fin 100)
      = (Fin (1662545186468311 / 4503599627370496))"
    by (intro num_div_cert rnd_cert[where m = "6650180745873244" and k = "- 54"])
      (simp_all add: pow2_eval)
  have f21: "num_mul (Fin 2) (Fin (1662545186468311 / 4503599627370496))
      = (Fin (1662545186468311 / 2251799813685248))"
    by (intro num_mul_cert rnd_cert[where m = "6650180745873244" and k = "- 53"])
      (simp_all add: pow2_eval)
  have f22: "num_sub (Fin (1662545186468311 / 2251799813685248)) (Fin 1)
      = (Fin (- (589254627216937 / 2251799813685248)))"
    by (intro num_sub_cert rnd_cert[where m = "- 4714037017735496" and k = "- 54"])
      (simp_all add: pow2_eval)
  have f23: "num_sub (Fin 1) (Fin (589254627216937 / 2251799813685248))
      = (Fin (1662545186468311 / 2251799813685248))"
    by (intro num_sub_cert rnd_cert[where m = "6650180745873244" and k = "- 53"])
      (simp_all add: pow2_eval)
  have f24: "num_mul (Fin (1662545186468311 / 2251799813685248)) (Fin (8828028020658843 / 36028797018963968))
      = (Fin (6517895330905845 / 36028797018963968))"
    by (intro num_mul_cert rnd_cert[where m = "6517895330905845" and k = "- 55"])
      (simp_all add: pow2_eval)
  have f25: "num_div (Fin (842947030935901 / 17592186044416)) (Fin 60)
      = (Fin (7193147997319689 / 9007199254740992))"
    by (intro num_div_cert rnd_cert[where m = "7193147997319689" and k = "- 53"])
      (simp_all add: pow2_eval)
  have f26: "num_rem (Fin (7193147997319689 / 9007199254740992)) (Fin 2)
      = (Fin (7193147997319689 / 9007199254740992))"
    by (intro num_rem_cert[where n = "0"] rnd_cert[where m = "7193147997319689" and k = "- 53"])
      (simp_all add: pow2_eval)
  have f27: "num_sub (Fin (7193147997319689 / 9007199254740992)) (Fin 1)
      = (Fin (- (1814051257421303 / 9007199254740992)))"
    by (intro num_sub_cert rnd_cert[where m = "- 7256205029685212" and k = "- 55"])
      (simp_all add: pow2_eval)
  have f28: "num_sub (Fin 1) (Fin (1814051257421303 / 9007199254740992))
      = (Fin (7193147997319689 / 9007199254740992))"
    by (intro num_sub_cert rnd_cert[where m = "7193147997319689" and k = "- 53"])
      (simp_all add: pow2_eval)
  have f29: "num_mul (Fin (6517895330905845 / 36028797018963968)) (Fin (7193147997319689 / 9007199254740992))
      = (Fin (1301297562657087 / 9007199254740992))"
    by (intro num_mul_cert rnd_cert[where m = "5205190250628348" and k = "- 55"])
      (simp_all add: pow2_eval)
  have f30: "num_div (Fin (6517895330905845 / 36028797018963968)) (Fin 2)
      = (Fin (6517895330905845 / 72057594037927936))"
    by (intro num_div_cert rnd_cert[where m = "6517895330905845" and k = "- 56"])
      (simp_all add: pow2_eval)
  have f31: "num_sub (Fin (1662545186468311 / 4503599627370496)) (Fin (6517895330905845 / 72057594037927936))
      = (Fin (5020706913146783 / 18014398509481984))"
    by (intro num_sub_cert rnd_cert[where m = "5020706913146783" and k = "- 54"])
      (simp_all add: pow2_eval)
  have f32: "num_add (Fin (6517895330905845 / 36028797018963968)) (Fin (5020706913146783 / 18014398509481984))
      = (Fin (4139827289299853 / 9007199254740992))"
    by (intro num_add_cert rnd_cert_tie[where m = "8279654578599706" and k = "- 54"])
      (simp_all add: pow2_eval)
  have f33: "num_mul (Fin (4139827289299853 / 9007199254740992)) (Fin 255)
      = (Fin (8247312177902051 / 70368744177664))"
    by (intro num_mul_cert rnd_cert[where m = "8247312177902051" and k = "- 46"])
      (simp_all add: pow2_eval)
  have f34: "num_add (Fin (1301297562657087 / 9007199254740992)) (Fin (5020706913146783 / 18014398509481984))
      = (Fin (7623302038460957 / 18014398509481984))"
    by (intro num_add_cert rnd_cert[where m = "7623302038460957" and k = "- 54"])
      (simp_all add: pow2_eval)
  have f35: "num_mul (Fin (7623302038460957 / 18014398509481984)) (Fin 255)
      = (Fin (7593523514873219 / 70368744177664))"
    by (intro num_mul_cert rnd_cert[where m = "7593523514873219" and k = "- 46"])
      (simp_all add: pow2_eval)
  have f36: "num_add (Fin 0) (Fin (5020706913146783 / 18014398509481984))
      = (Fin (5020706913146783 / 18014398509481984))"
    by (simp add: num_add_def) (intro rnd_cert[where m = "5020706913146783" and k = "- 54"]; simp add: pow2_eval)
  have f37: "num_mul (Fin (5020706913146783 / 18014398509481984)) (Fin 255)
      = (Fin (5001094776767303 / 70368744177664))"
    by (intro num_mul_cert rnd_cert[where m = "5001094776767303" and k = "- 46"])
      (simp_all add: pow2_eval)
  have ch: "hsl_channels (Fin (842947030935901 / 17592186044416))
      (Fin (6896896891139721 / 281474976710656))
      (Fin (81178964183023 / 2199023255552))
    = ((Fin 117), (Fin 108), (Fin 71))"
    by (simp add: hsl_channels_def Let_def num_le_def
      f1 f2 f3 f4 f5 f6 f7 f8 f9 f10 f11 f12 f13 f14 f15 f16 f17 f18 f19 f20 f21 f22 f23
      f24 f25 f26 f27 f28 f29 f30 f31 f32 f33 f34 f35 f36 f37)
  have hx: "hslToHex (Fin (842947030935901 / 17592186044416))
      (Fin (6896896891139721 / 281474976710656))
      (Fin (81178964183023 / 2199023255552))
    = str ''#756c47''"
    by (simp add: hslToHex_def ch toHex_def padStart_def to_digits.simps digit_char_def str_def)
  show ?thesis
    by (simp add: makeGreen_def Let_def num_def TILE_COUNT_def num_le_def hexToRgb_START hexToRgb_MID
      hexToRgb_END rgbToHsl_START rgbToHsl_MID rgbToHsl_END lerp_def lerpHue_def hx
      f1 f2 f3 f4 f5 f6 f7 f8 f9 f10 f11 f12 f13 f14 f15 f16 f17 f18 f19 f20 f21 f22 f23
      f24 f25 f26 f27 f28 f29 f30 f31 f32 f33 f34 f35 f36 f37)
qed

lemma makeGreen_59: "makeGreen (num 59) (num TILE_COUNT) = Inr (str ''#d4c7a6'')"
proof -
  have f1: "num_sub (Fin 60) (Fin 1)
      = (Fin 59)"
    by (intro num_sub_cert rnd_cert[where m = "8303511812964352" and k = "- 47"])
      (simp_all add: pow2_eval)
  have f2: "num_div (Fin 59) (Fin 59)
      = (Fin 1)"
    by (intro num_div_cert rnd_cert[where m = "4503599627370496" and k = "- 52"])
      (simp_all add: pow2_eval)
  have f3: "num_sub (Fin 1) (Fin (1 / 2))
      = (Fin (1 / 2))"
    by (intro num_sub_cert rnd_cert[where m = "4503599627370496" and k = "- 53"])
      (simp_all add: pow2_eval)
  have f4: "num_div (Fin (1 / 2)) (Fin (1 / 2))
      = (Fin 1)"
    by (intro num_div_cert rnd_cert[where m = "4503599627370496" and k = "- 52"])
      (simp_all add: pow2_eval)
  have f5: "num_sub (Fin (6057831020511943 / 140737488355328)) (Fin 48)
      = (Fin (- (697568420543801 / 140737488355328)))"
    by (intro num_sub_cert rnd_cert[where m = "- 5580547364350408" and k = "- 50"])
      (simp_all add: pow2_eval)
  have f6: "num_add (Fin (- (697568420543801 / 140737488355328))) (Fin 540)
      = (Fin (1176573051427083 / 2199023255552))"
    by (intro num_add_cert rnd_cert[where m = "4706292205708332" and k = "- 43"])
      (simp_all add: pow2_eval)
  have f7: "num_rem (Fin (1176573051427083 / 2199023255552)) (Fin 360)
      = (Fin (384924679428363 / 2199023255552))"
    by (intro num_rem_cert[where n = "1"] rnd_cert[where m = "6158794870853808" and k = "- 45"])
      (simp_all add: pow2_eval)
  have f8: "num_sub (Fin (384924679428363 / 2199023255552)) (Fin 180)
      = (Fin (- (10899506570997 / 2199023255552)))"
    by (intro num_sub_cert rnd_cert[where m = "- 5580547364350464" and k = "- 50"])
      (simp_all add: pow2_eval)
  have f9: "num_mul (Fin (- (10899506570997 / 2199023255552))) (Fin 1)
      = (Fin (- (10899506570997 / 2199023255552)))"
    by (intro num_mul_cert rnd_cert[where m = "- 5580547364350464" and k = "- 50"])
      (simp_all add: pow2_eval)
  have f10: "num_add (Fin 48) (Fin (- (10899506570997 / 2199023255552)))
      = (Fin (94653609695499 / 2199023255552))"
    by (intro num_add_cert rnd_cert[where m = "6057831020511936" and k = "- 47"])
      (simp_all add: pow2_eval)
  have f11: "num_add (Fin (94653609695499 / 2199023255552)) (Fin 360)
      = (Fin (886301981694219 / 2199023255552))"
    by (intro num_add_cert rnd_cert[where m = "7090415853553752" and k = "- 44"])
      (simp_all add: pow2_eval)
  have f12: "num_rem (Fin (886301981694219 / 2199023255552)) (Fin 360)
      = (Fin (94653609695499 / 2199023255552))"
    by (intro num_rem_cert[where n = "1"] rnd_cert[where m = "6057831020511936" and k = "- 47"])
      (simp_all add: pow2_eval)
  have f13: "num_sub (Fin (2452244115282231 / 70368744177664)) (Fin (6846688622691631 / 281474976710656))
      = (Fin (2962287838437293 / 281474976710656))"
    by (intro num_sub_cert rnd_cert[where m = "5924575676874586" and k = "- 49"])
      (simp_all add: pow2_eval)
  have f14: "num_mul (Fin (2962287838437293 / 281474976710656)) (Fin 1)
      = (Fin (2962287838437293 / 281474976710656))"
    by (intro num_mul_cert rnd_cert[where m = "5924575676874586" and k = "- 49"])
      (simp_all add: pow2_eval)
  have f15: "num_add (Fin (6846688622691631 / 281474976710656)) (Fin (2962287838437293 / 281474976710656))
      = (Fin (2452244115282231 / 70368744177664))"
    by (intro num_add_cert rnd_cert[where m = "4904488230564462" and k = "- 47"])
      (simp_all add: pow2_eval)
  have f16: "num_sub (Fin (651945718116593 / 8796093022208)) (Fin (1276295850281161 / 35184372088832))
      = (Fin (1331487022185211 / 35184372088832))"
    by (intro num_sub_cert rnd_cert[where m = "5325948088740844" and k = "- 47"])
      (simp_all add: pow2_eval)
  have f17: "num_mul (Fin (1331487022185211 / 35184372088832)) (Fin 1)
      = (Fin (1331487022185211 / 35184372088832))"
    by (intro num_mul_cert rnd_cert[where m = "5325948088740844" and k = "- 47"])
      (simp_all add: pow2_eval)
  have f18: "num_add (Fin (1276295850281161 / 35184372088832)) (Fin (1331487022185211 / 35184372088832))
      = (Fin (651945718116593 / 8796093022208))"
    by (intro num_add_cert rnd_cert[where m = "5215565744932744" and k = "- 46"])
      (simp_all add: pow2_eval)
  have f19: "num_div (Fin (2452244115282231 / 70368744177664)) (Fin 100)
      = (Fin (6277744935122511 / 18014398509481984))"
    by (intro num_div_cert rnd_cert[where m = "6277744935122511" and k = "- 54"])
      (simp_all add: pow2_eval)
  have f20: "num_div (Fin (651945718116593 / 8796093022208)) (Fin 100)
      = (Fin (834490519189239 / 1125899906842624))"
    by (intro num_div_cert rnd_cert[where m = "6675924153513912" and k = "- 53"])
      (simp_all add: pow2_eval)
  have f21: "num_mul (Fin 2) (Fin (834490519189239 / 1125899906842624))
      = (Fin (834490519189239 / 562949953421312))"
    by (intro num_mul_cert rnd_cert[where m = "6675924153513912" and k = "- 52"])
      (simp_all add: pow2_eval)
  have f22: "num_sub (Fin (834490519189239 / 562949953421312)) (Fin 1)
      = (Fin (271540565767927 / 562949953421312))"
    by (intro num_sub_cert rnd_cert[where m = "8689298104573664" and k = "- 54"])
      (simp_all add: pow2_eval)
  have f23: "num_sub (Fin 1) (Fin (271540565767927 / 562949953421312))
      = (Fin (291409387653385 / 562949953421312))"
    by (intro num_sub_cert rnd_cert[where m = "4662550202454160" and k = "- 53"])
      (simp_all add: pow2_eval)
  have f24: "num_mul (Fin (291409387653385 / 562949953421312)) (Fin (6277744935122511 / 18014398509481984))
      = (Fin (812414050427619 / 4503599627370496))"
    by (intro num_mul_cert rnd_cert[where m = "6499312403420952" and k = "- 55"])
      (simp_all add: pow2_eval)
  have f25: "num_div (Fin (94653609695499 / 2199023255552)) (Fin 60)
      = (Fin (3230843210939699 / 4503599627370496))"
    by (intro num_div_cert rnd_cert[where m = "6461686421879398" and k = "- 53"])
      (simp_all add: pow2_eval)
  have f26: "num_rem (Fin (3230843210939699 / 4503599627370496)) (Fin 2)
      = (Fin (3230843210939699 / 4503599627370496))"
    by (intro num_rem_cert[where n = "0"] rnd_cert[where m = "6461686421879398" and k = "- 53"])
      (simp_all add: pow2_eval)
  have f27: "num_sub (Fin (3230843210939699 / 4503599627370496)) (Fin 1)
      = (Fin (- (1272756416430797 / 4503599627370496)))"
    by (intro num_sub_cert rnd_cert[where m = "- 5091025665723188" and k = "- 54"])
      (simp_all add: pow2_eval)
  have f28: "num_sub (Fin 1) (Fin (1272756416430797 / 4503599627370496))
      = (Fin (3230843210939699 / 4503599627370496))"
    by (intro num_sub_cert rnd_cert[where m = "6461686421879398" and k = "- 53"])
      (simp_all add: pow2_eval)
  have f29: "num_mul (Fin (812414050427619 / 4503599627370496)) (Fin (3230843210939699 / 4503599627370496))
      = (Fin (4662550202454155 / 36028797018963968))"
    by (intro num_mul_cert rnd_cert[where m = "4662550202454155" and k = "- 55"])
      (simp_all add: pow2_eval)
  have f30: "num_div (Fin (812414050427619 / 4503599627370496)) (Fin 2)
      = (Fin (812414050427619 / 9007199254740992))"
    by (intro num_div_cert rnd_cert[where m = "6499312403420952" and k = "- 56"])
      (simp_all add: pow2_eval)
  have f31: "num_sub (Fin (834490519189239 / 1125899906842624)) (Fin (812414050427619 / 9007199254740992))
      = (Fin (5863510103086293 / 9007199254740992))"
    by (intro num_sub_cert rnd_cert[where m = "5863510103086293" and k = "- 53"])
      (simp_all add: pow2_eval)
  have f32: "num_add (Fin (812414050427619 / 4503599627370496)) (Fin (5863510103086293 / 9007199254740992))
      = (Fin (7488338203941531 / 9007199254740992))"
    by (intro num_add_cert rnd_cert[where m = "7488338203941531" and k = "- 53"])
      (simp_all add: pow2_eval)
  have f33: "num_mul (Fin (7488338203941531 / 9007199254740992)) (Fin 255)
      = (Fin 212)"
    by (intro num_mul_cert rnd_cert[where m = "7459086882832384" and k = "- 45"])
      (simp_all add: pow2_eval)
  have f34: "num_add (Fin (4662550202454155 / 36028797018963968)) (Fin (5863510103086293 / 9007199254740992))
      = (Fin (878643456712479 / 1125899906842624))"
    by (intro num_add_cert rnd_cert[where m = "7029147653699832" and k = "- 53"])
      (simp_all add: pow2_eval)
  have f35: "num_mul (Fin (878643456712479 / 1125899906842624)) (Fin 255)
      = (Fin (7001690045677567 / 35184372088832))"
    by (intro num_mul_cert rnd_cert[where m = "7001690045677567" and k = "- 45"])
      (simp_all add: pow2_eval)
  have f36: "num_add (Fin 0) (Fin (5863510103086293 / 9007199254740992))
      = (Fin (5863510103086293 / 9007199254740992))"
    by (simp add: num_add_def) (intro rnd_cert[where m = "5863510103086293" and k = "- 53"]; simp add: pow2_eval)
  have f37: "num_mul (Fin (5863510103086293 / 9007199254740992)) (Fin 255)
      = (Fin 166)"
    by (intro num_mul_cert rnd_cert[where m = "5840605766746112" and k = "- 45"])
      (simp_all add: pow2_eval)
  have ch: "hsl_channels (Fin (94653609695499 / 2199023255552))
      (Fin (2452244115282231 / 70368744177664))
      (Fin (651945718116593 / 8796093022208))
    = ((Fin 212), (Fin 199), (Fin 166))"
    by (simp add: hsl_channels_def Let_def num_le_def
      f1 f2 f3 f4 f5 f6 f7 f8 f9 f10 f11 f12 f13 f14 f15 f16 f17 f18 f19 f20 f21 f22 f23
      f24 f25 f26 f27 f28 f29 f30 f31 f32 f33 f34 f35 f36 f37)
  have hx: "hslToHex (Fin (94653609695499 / 2199023255552))
      (Fin (2452244115282231 / 70368744177664))
      (Fin (651945718116593 / 8796093022208))
    = str ''#d4c7a6''"
    by (simp add: hslToHex_def ch toHex_def padStart_def to_digits.simps digit_char_def str_def)
  show ?thesis
    by (simp add: makeGreen_def Let_def num_def TILE_COUNT_def num_le_def hexToRgb_START hexToRgb_MID
      hexToRgb_END rgbToHsl_START rgbToHsl_MID rgbToHsl_END lerp_def lerpHue_def hx
      f1 f2 f3 f4 f5 f6 f7 f8 f9 f10 f11 f12 f13 f14 f15 f16 f17 f18 f19 f20 f21 f22 f23
      f24 f25 f26 f27 f28 f29 f30 f31 f32 f33 f34 f35 f36 f37)
qed

section \<open>Properties of the colour engine\<close>

text \<open>
  Claim C6. \<^verbatim>\<open>lerpHue(350, 10, 0.5)\<close> is 0: the hue goes from 350 to 10 through 0, where
  the linear \<^verbatim>\<open>lerp\<close> gives 180. For all arguments \<^verbatim>\<open>lerpHue\<close> is
  \<^verbatim>\<open>(h1 + delta * t + 360) % 360\<close> with \<^verbatim>\<open>delta = ((h2 - h1 + 540) % 360) - 180\<close>, where
  \<^verbatim>\<open>%\<close> is the remainder of JavaScript.
\<close>

theorem lerpHue_short_path:
  "lerpHue (Fin 350) (Fin 10) (Fin (1 / 2)) = Fin 0
   \<and> lerp (Fin 350) (Fin 10) (Fin (1 / 2)) = Fin 180
   \<and> lerpHue h1 h2 t =
       num_rem (num_add (num_add h1 (num_mul
         (num_sub (num_rem (num_add (num_sub h2 h1) (Fin 540)) (Fin 360)) (Fin 180)) t))
         (Fin 360)) (Fin 360)"
proof -
  have r1: "num_rem (Fin 200) (Fin 360) = Fin 200"
    by (rule num_rem_cert[where n = 0]) simp_all
  have r2: "num_rem (Fin 720) (Fin 360) = Fin 0"
    by (simp add: num_rem_def Let_def zero_of_def)
  have "lerpHue (Fin 350) (Fin 10) (Fin (1 / 2)) = Fin 0"
    by (simp add: lerpHue_def Let_def num_sub_Fin num_add_Fin num_mul_Fin r1 r2)
  moreover have "lerp (Fin 350) (Fin 10) (Fin (1 / 2)) = Fin 180"
    by (simp add: lerp_def num_sub_Fin num_add_Fin num_mul_Fin)
  ultimately show ?thesis by (simp add: lerpHue_def Let_def)
qed

text \<open>
  Claim C1, as the code has it. With 60 tiles \<^verbatim>\<open>makeGreen(0, 60)\<close> is the start anchor and
  \<^verbatim>\<open>makeGreen(59, 60)\<close> is the end anchor. \<^verbatim>\<open>makeGreen(30, 60)\<close> is \<^verbatim>\<open>#756c47\<close>: index 30
  is at \<open>t = 30/59\<close>, one step into the second segment. The tile at index 30 shows the
  mid anchor because the loop body assigns \<open>MID_HEX\<close> there without calling
  \<^verbatim>\<open>makeGreen\<close>.
\<close>

theorem makeGreen_anchors:
  "makeGreen (num 0) (num TILE_COUNT) = Inr START_HEX
   \<and> makeGreen (num (TILE_COUNT - 1)) (num TILE_COUNT) = Inr END_HEX
   \<and> MID_INDEX = num 30
   \<and> makeGreen (num 30) (num TILE_COUNT) = Inr (str ''#756c47'')
   \<and> (\<exists>b. make_tile interestsIndex 30 = Inr b \<and> backgroundColor b = MID_HEX)"
proof -
  have "\<exists>b. make_tile interestsIndex 30 = Inr b \<and> backgroundColor b = MID_HEX"
    by (simp add: make_tile_def MID_INDEX_eq num_def)
  moreover have "makeGreen (num (TILE_COUNT - 1)) (num TILE_COUNT) = Inr END_HEX"
    using makeGreen_59 by (simp add: TILE_COUNT_def END_HEX_def)
  ultimately show ?thesis
    using makeGreen_0 makeGreen_30 by (simp add: START_HEX_def MID_INDEX_eq num_def)
qed

text \<open>The interpolation at the midpoint index does not give the mid anchor.\<close>

theorem makeGreen_mid_counterexample:
  "MID_INDEX = num 30 \<and> makeGreen (num 30) (num TILE_COUNT) \<noteq> Inr MID_HEX"
  using makeGreen_30 by (simp add: MID_INDEX_eq num_def MID_HEX_def str_def)

section \<open>A hue of 360 degrees\<close>

lemma hslToHex_360_100_50: "hslToHex (Fin 360) (Fin 100) (Fin 50) = str ''#000000''"
proof -
  have f1: "num_div (Fin 100) (Fin 100)
      = (Fin 1)"
    by (intro num_div_cert rnd_cert[where m = "4503599627370496" and k = "- 52"])
      (simp_all add: pow2_eval)
  have f2: "num_div (Fin 50) (Fin 100)
      = (Fin (1 / 2))"
    by (intro num_div_cert rnd_cert[where m = "4503599627370496" and k = "- 53"])
      (simp_all add: pow2_eval)
  have f3: "num_mul (Fin 2) (Fin (1 / 2))
      = (Fin 1)"
    by (intro num_mul_cert rnd_cert[where m = "4503599627370496" and k = "- 52"])
      (simp_all add: pow2_eval)
  have f4: "num_sub (Fin 1) (Fin 1)
      = (Fin 0)"
    by (simp add: num_sub_def num_add_def zero_of_def inf_of_def)
  have f5: "num_sub (Fin 1) (Fin 0)
      = (Fin 1)"
    by (simp add: num_sub_def num_add_def; intro rnd_cert[where m = "4503599627370496" and k = "- 52"]; simp add: pow2_eval)
  have f6: "num_mul (Fin 1) (Fin 1)
      = (Fin 1)"
    by (intro num_mul_cert rnd_cert[where m = "4503599627370496" and k = "- 52"])
      (simp_all add: pow2_eval)
  have f7: "num_div (Fin 360) (Fin 60)
      = (Fin 6)"
    by (intro num_div_cert rnd_cert[where m = "6755399441055744" and k = "- 50"])
      (simp_all add: pow2_eval)
  have f8: "num_rem (Fin 6) (Fin 2)
      = (Fin 0)"
    by (simp add: num_rem_def Let_def zero_of_def)
  have f9: "num_sub (Fin 0) (Fin 1)
      = (Fin (- 1))"
    by (simp add: num_sub_def num_add_def; intro rnd_cert[where m = "- 4503599627370496" and k = "- 52"]; simp add: pow2_eval)
  have f10: "num_mul (Fin 1) (Fin 0)
      = (Fin 0)"
    by (simp add: num_mul_def zero_of_def inf_of_def)
  have f11: "num_div (Fin 1) (Fin 2)
      = (Fin (1 / 2))"
    by (intro num_div_cert rnd_cert[where m = "4503599627370496" and k = "- 53"])
      (simp_all add: pow2_eval)
  have f12: "num_sub (Fin (1 / 2)) (Fin (1 / 2))
      = (Fin 0)"
    by (simp add: num_sub_def num_add_def zero_of_def inf_of_def)
  have f13: "num_add (Fin 0) (Fin 0)
      = (Fin 0)"
    by (simp add: num_add_def zero_of_def inf_of_def)
  have f14: "num_mul (Fin 0) (Fin 255)
      = (Fin 0)"
    by (simp add: num_mul_def zero_of_def inf_of_def)
  have ch: "hsl_channels (Fin 360) (Fin 100) (Fin 50) = ((Fin 0), (Fin 0), (Fin 0))"
    by (simp add: hsl_channels_def Let_def num_le_def
      f1 f2 f3 f4 f5 f6 f7 f8 f9 f10 f11 f12 f13 f14)
  show ?thesis
    by (simp add: hslToHex_def ch toHex_def padStart_def to_digits.simps digit_char_def str_def)
qed

lemma hslToHex_0_100_50: "hslToHex (Fin 0) (Fin 100) (Fin 50) = str ''#ff0000''"
proof -
  have f1: "num_div (Fin 100) (Fin 100)
      = (Fin 1)"
    by (intro num_div_cert rnd_cert[where m = "4503599627370496" and k = "- 52"])
      (simp_all add: pow2_eval)
  have f2: "num_div (Fin 50) (Fin 100)
      = (Fin (1 / 2))"
    by (intro num_div_cert rnd_cert[where m = "4503599627370496" and k = "- 53"])
      (simp_all add: pow2_eval)
  have f3: "num_mul (Fin 2) (Fin (1 / 2))
      = (Fin 1)"
    by (intro num_mul_cert rnd_cert[where m = "4503599627370496" and k = "- 52"])
      (simp_all add: pow2_eval)
  have f4: "num_sub (Fin 1) (Fin 1)
      = (Fin 0)"
    by (simp add: num_sub_def num_add_def zero_of_def inf_of_def)
  have f5: "num_sub (Fin 1) (Fin 0)
      = (Fin 1)"
    by (simp add: num_sub_def num_add_def; intro rnd_cert[where m = "4503599627370496" and k = "- 52"]; simp add: pow2_eval)
  have f6: "num_mul (Fin 1) (Fin 1)
      = (Fin 1)"
    by (intro num_mul_cert rnd_cert[where m = "4503599627370496" and k = "- 52"])
      (simp_all add: pow2_eval)
  have f7: "num_div (Fin 0) (Fin 60)
      = (Fin 0)"
    by (simp add: num_div_def zero_of_def inf_of_def)
  have f8: "num_rem (Fin 0) (Fin 2)
      = (Fin 0)"
    by (simp add: num_rem_def Let_def zero_of_def)
  have f9: "num_sub (Fin 0) (Fin 1)
      = (Fin (- 1))"
    by (simp add: num_sub_def num_add_def; intro rnd_cert[where m = "- 4503599627370496" and k = "- 52"]; simp add: pow2_eval)
  have f10: "num_mul (Fin 1) (Fin 0)
      = (Fin 0)"
    by (simp add: num_mul_def zero_of_def inf_of_def)
  have f11: "num_div (Fin 1) (Fin 2)
      = (Fin (1 / 2))"
    by (intro num_div_cert rnd_cert[where m = "4503599627370496" and k = "- 53"])
      (simp_all add: pow2_eval)
  have f12: "num_sub (Fin (1 / 2)) (Fin (1 / 2))
      = (Fin 0)"
    by (simp add: num_sub_def num_add_def zero_of_def inf_of_def)
  have f13: "num_add (Fin 1) (Fin 0)
      = (Fin 1)"
    by (simp add: num_add_def; intro rnd_cert[where m = "4503599627370496" and k = "- 52"]; simp add: pow2_eval)
  have f14: "num_mul (Fin 1) (Fin 255)
      = (Fin 255)"
    by (intro num_mul_cert rnd_cert[where m = "8972014882652160" and k = "- 45"])
      (simp_all add: pow2_eval)
  have f15: "num_add (Fin 0) (Fin 0)
      = (Fin 0)"
    by (simp add: num_add_def zero_of_def inf_of_def)
  have f16: "num_mul (Fin 0) (Fin 255)
      = (Fin 0)"
    by (simp add: num_mul_def zero_of_def inf_of_def)
  have ch: "hsl_channels (Fin 0) (Fin 100) (Fin 50) = ((Fin 255), (Fin 0), (Fin 0))"
    by (simp add: hsl_channels_def Let_def num_le_def
      f1 f2 f3 f4 f5 f6 f7 f8 f9 f10 f11 f12 f13 f14 f15 f16)
  show ?thesis
    by (simp add: hslToHex_def ch toHex_def padStart_def to_digits.simps digit_char_def str_def)
qed

lemma hslToHex_360_quarter_40: "hslToHex (Fin 360) (Fin (1 / 4)) (Fin 40) = str ''#666666''"
proof -
  have f1: "num_div (Fin (1 / 4)) (Fin 100)
      = (Fin (5764607523034235 / 2305843009213693952))"
    by (intro num_div_cert rnd_cert[where m = "5764607523034235" and k = "- 61"])
      (simp_all add: pow2_eval)
  have f2: "num_div (Fin 40) (Fin 100)
      = (Fin (3602879701896397 / 9007199254740992))"
    by (intro num_div_cert rnd_cert[where m = "7205759403792794" and k = "- 54"])
      (simp_all add: pow2_eval)
  have f3: "num_mul (Fin 2) (Fin (3602879701896397 / 9007199254740992))
      = (Fin (3602879701896397 / 4503599627370496))"
    by (intro num_mul_cert rnd_cert[where m = "7205759403792794" and k = "- 53"])
      (simp_all add: pow2_eval)
  have f4: "num_sub (Fin (3602879701896397 / 4503599627370496)) (Fin 1)
      = (Fin (- (900719925474099 / 4503599627370496)))"
    by (intro num_sub_cert rnd_cert[where m = "- 7205759403792792" and k = "- 55"])
      (simp_all add: pow2_eval)
  have f5: "num_sub (Fin 1) (Fin (900719925474099 / 4503599627370496))
      = (Fin (3602879701896397 / 4503599627370496))"
    by (intro num_sub_cert rnd_cert[where m = "7205759403792794" and k = "- 53"])
      (simp_all add: pow2_eval)
  have f6: "num_mul (Fin (3602879701896397 / 4503599627370496)) (Fin (5764607523034235 / 2305843009213693952))
      = (Fin (1152921504606847 / 576460752303423488))"
    by (intro num_mul_cert rnd_cert[where m = "4611686018427388" and k = "- 61"])
      (simp_all add: pow2_eval)
  have f7: "num_div (Fin 360) (Fin 60)
      = (Fin 6)"
    by (intro num_div_cert rnd_cert[where m = "6755399441055744" and k = "- 50"])
      (simp_all add: pow2_eval)
  have f8: "num_rem (Fin 6) (Fin 2)
      = (Fin 0)"
    by (simp add: num_rem_def Let_def zero_of_def)
  have f9: "num_sub (Fin 0) (Fin 1)
      = (Fin (- 1))"
    by (simp add: num_sub_def num_add_def; intro rnd_cert[where m = "- 4503599627370496" and k = "- 52"]; simp add: pow2_eval)
  have f10: "num_sub (Fin 1) (Fin 1)
      = (Fin 0)"
    by (simp add: num_sub_def num_add_def zero_of_def inf_of_def)
  have f11: "num_mul (Fin (1152921504606847 / 576460752303423488)) (Fin 0)
      = (Fin 0)"
    by (simp add: num_mul_def zero_of_def inf_of_def)
  have f12: "num_div (Fin (1152921504606847 / 576460752303423488)) (Fin 2)
      = (Fin (1152921504606847 / 1152921504606846976))"
    by (intro num_div_cert rnd_cert[where m = "4611686018427388" and k = "- 62"])
      (simp_all add: pow2_eval)
  have f13: "num_sub (Fin (3602879701896397 / 9007199254740992)) (Fin (1152921504606847 / 1152921504606846976))
      = (Fin (449234062830207 / 1125899906842624))"
    by (intro num_sub_cert rnd_cert[where m = "7187745005283312" and k = "- 54"])
      (simp_all add: pow2_eval)
  have f14: "num_add (Fin 0) (Fin (449234062830207 / 1125899906842624))
      = (Fin (449234062830207 / 1125899906842624))"
    by (simp add: num_add_def; intro rnd_cert[where m = "7187745005283312" and k = "- 54"]; simp add: pow2_eval)
  have f15: "num_mul (Fin (449234062830207 / 1125899906842624)) (Fin 255)
      = (Fin (894958484544553 / 8796093022208))"
    by (intro num_mul_cert rnd_cert[where m = "7159667876356424" and k = "- 46"])
      (simp_all add: pow2_eval)
  have ch: "hsl_channels (Fin 360) (Fin (1 / 4)) (Fin 40) = ((Fin 102), (Fin 102), (Fin 102))"
    by (simp add: hsl_channels_def Let_def num_le_def
      f1 f2 f3 f4 f5 f6 f7 f8 f9 f10 f11 f12 f13 f14 f15)
  show ?thesis
    by (simp add: hslToHex_def ch toHex_def padStart_def to_digits.simps digit_char_def str_def)
qed

lemma hslToHex_0_quarter_40: "hslToHex (Fin 0) (Fin (1 / 4)) (Fin 40) = str ''#666666''"
proof -
  have f1: "num_div (Fin (1 / 4)) (Fin 100)
      = (Fin (5764607523034235 / 2305843009213693952))"
    by (intro num_div_cert rnd_cert[where m = "5764607523034235" and k = "- 61"])
      (simp_all add: pow2_eval)
  have f2: "num_div (Fin 40) (Fin 100)
      = (Fin (3602879701896397 / 9007199254740992))"
    by (intro num_div_cert rnd_cert[where m = "7205759403792794" and k = "- 54"])
      (simp_all add: pow2_eval)
  have f3: "num_mul (Fin 2) (Fin (3602879701896397 / 9007199254740992))
      = (Fin (3602879701896397 / 4503599627370496))"
    by (intro num_mul_cert rnd_cert[where m = "7205759403792794" and k = "- 53"])
      (simp_all add: pow2_eval)
  have f4: "num_sub (Fin (3602879701896397 / 4503599627370496)) (Fin 1)
      = (Fin (- (900719925474099 / 4503599627370496)))"
    by (intro num_sub_cert rnd_cert[where m = "- 7205759403792792" and k = "- 55"])
      (simp_all add: pow2_eval)
  have f5: "num_sub (Fin 1) (Fin (900719925474099 / 4503599627370496))
      = (Fin (3602879701896397 / 4503599627370496))"
    by (intro num_sub_cert rnd_cert[where m = "7205759403792794" and k = "- 53"])
      (simp_all add: pow2_eval)
  have f6: "num_mul (Fin (3602879701896397 / 4503599627370496)) (Fin (5764607523034235 / 2305843009213693952))
      = (Fin (1152921504606847 / 576460752303423488))"
    by (intro num_mul_cert rnd_cert[where m = "4611686018427388" and k = "- 61"])
      (simp_all add: pow2_eval)
  have f7: "num_div (Fin 0) (Fin 60)
      = (Fin 0)"
    by (simp add: num_div_def zero_of_def inf_of_def)
  have f8: "num_rem (Fin 0) (Fin 2)
      = (Fin 0)"
    by (simp add: num_rem_def Let_def zero_of_def)
  have f9: "num_sub (Fin 0) (Fin 1)
      = (Fin (- 1))"
    by (simp add: num_sub_def num_add_def; intro rnd_cert[where m = "- 4503599627370496" and k = "- 52"]; simp add: pow2_eval)
  have f10: "num_sub (Fin 1) (Fin 1)
      = (Fin 0)"
    by (simp add: num_sub_def num_add_def zero_of_def inf_of_def)
  have f11: "num_mul (Fin (1152921504606847 / 576460752303423488)) (Fin 0)
      = (Fin 0)"
    by (simp add: num_mul_def zero_of_def inf_of_def)
  have f12: "num_div (Fin (1152921504606847 / 576460752303423488)) (Fin 2)
      = (Fin (1152921504606847 / 1152921504606846976))"
    by (intro num_div_cert rnd_cert[where m = "4611686018427388" and k = "- 62"])
      (simp_all add: pow2_eval)
  have f13: "num_sub (Fin (3602879701896397 / 9007199254740992)) (Fin (1152921504606847 / 1152921504606846976))
      = (Fin (449234062830207 / 1125899906842624))"
    by (intro num_sub_cert rnd_cert[where m = "7187745005283312" and k = "- 54"])
      (simp_all add: pow2_eval)
  have f14: "num_add (Fin (1152921504606847 / 576460752303423488)) (Fin (449234062830207 / 1125899906842624))
      = (Fin (1805943450575569 / 4503599627370496))"
    by (intro num_add_cert rnd_cert[where m = "7223773802302276" and k = "- 54"])
      (simp_all add: pow2_eval)
  have f15: "num_mul (Fin (1805943450575569 / 4503599627370496)) (Fin 255)
      = (Fin (7195555935887033 / 70368744177664))"
    by (intro num_mul_cert rnd_cert[where m = "7195555935887033" and k = "- 46"])
      (simp_all add: pow2_eval)
  have f16: "num_add (Fin 0) (Fin (449234062830207 / 1125899906842624))
      = (Fin (449234062830207 / 1125899906842624))"
    by (simp add: num_add_def; intro rnd_cert[where m = "7187745005283312" and k = "- 54"]; simp add: pow2_eval)
  have f17: "num_mul (Fin (449234062830207 / 1125899906842624)) (Fin 255)
      = (Fin (894958484544553 / 8796093022208))"
    by (intro num_mul_cert rnd_cert[where m = "7159667876356424" and k = "- 46"])
      (simp_all add: pow2_eval)
  have ch: "hsl_channels (Fin 0) (Fin (1 / 4)) (Fin 40) = ((Fin 102), (Fin 102), (Fin 102))"
    by (simp add: hsl_channels_def Let_def num_le_def
      f1 f2 f3 f4 f5 f6 f7 f8 f9 f10 f11 f12 f13 f14 f15 f16 f17)
  show ?thesis
    by (simp add: hslToHex_def ch toHex_def padStart_def to_digits.simps digit_char_def str_def)
qed

lemma rval_idem: "rval (rval x) = rval x"
proof (cases "x = 0")
  case True
  then show ?thesis by simp
next
  case False
  define q where "q = quantum x"
  define n where "n = round_even (x / pow2 q)"
  have y: "rval x = of_int n * pow2 q" by (simp add: rval_def q_def n_def)
  have "\<bar>x\<bar> < pow2 (q + 53)" using quantum_upper[OF False] by (simp add: q_def)
  then have "\<bar>x / pow2 q\<bar> < pow2 53"
    by (simp add: pow2_add abs_divide field_simps)
  then have "x / pow2 q \<le> of_int (2 ^ 53)" "of_int (- (2 ^ 53)) \<le> x / pow2 q"
    by (simp_all add: pow2_eval abs_if split: if_splits)
  then have "n \<le> 2 ^ 53" "- (2 ^ 53) \<le> n"
    unfolding n_def using round_even_mono round_even_of_int by metis+
  then consider "\<bar>n\<bar> < 2 ^ 53" | "n = 2 ^ 53" | "n = - (2 ^ 53)" by linarith
  then show ?thesis
  proof cases
    case 1
    then have "\<bar>(of_int n :: rat)\<bar> < of_int (2 ^ 53)"
      by (simp only: of_int_abs[symmetric] of_int_less_iff)
    then have "\<bar>of_int n * pow2 q\<bar> < pow2 (q + 53)"
      by (simp add: pow2_add abs_mult pow2_eval)
    then show ?thesis unfolding y using rval_exact[of q n] quantum_ge[of x] by (simp add: q_def)
  next
    case 2
    then have "rval x = of_int 1 * pow2 (q + 53)" by (simp add: y pow2_add pow2_eval)
    moreover have "rval (of_int 1 * pow2 (q + 53)) = of_int 1 * pow2 (q + 53)"
      using quantum_ge[of x] by (intro rval_exact) (simp_all add: q_def)
    ultimately show ?thesis by simp
  next
    case 3
    then have "rval x = of_int (- 1) * pow2 (q + 53)" by (simp add: y pow2_add pow2_eval)
    moreover have "rval (of_int (- 1) * pow2 (q + 53)) = of_int (- 1) * pow2 (q + 53)"
      using quantum_ge[of x] by (intro rval_exact) (simp_all add: q_def)
    ultimately show ?thesis by simp
  qed
qed

lemma rnd_idem:
  assumes "rnd x = Fin y"
  shows "rnd y = Fin y"
proof -
  have y: "rval x = y" "\<bar>y\<bar> < pow2 1024"
    using assms by (auto simp: rnd_def Let_def abs_if split: if_splits)
  show ?thesis by (rule rnd_Fin) (use y rval_idem[of x] in simp_all)
qed

lemma num_add_zero_left:
  "num_add (Fin 0) (num_add a b) = (if num_add a b = NZero then Fin 0 else num_add a b)"
proof (cases "num_add a b")
  case (Fin y)
  then have "rnd (val a + val b) = Fin y"
    by (auto simp: num_add_def split: if_splits)
  then show ?thesis using Fin rnd_idem by (simp add: num_add_def)
qed (simp_all add: num_add_def)

lemma num_div_360_60: "num_div (Fin 360) (Fin 60) = Fin 6"
  by (simp add: num_div_Fin)

lemma no_sector_achromatic:
  assumes "\<not> (num_le (Fin 0) (num_div h (Fin 60)) \<and> num_lt (num_div h (Fin 60)) (Fin 6))"
  shows "hsl_channels h s l =
     (let l' = num_div l (Fin 100);
          c = num_mul (num_sub (Fin 1) (Math_abs (num_sub (num_mul (Fin 2) l') (Fin 1))))
                (num_div s (Fin 100));
          v = Math_round (num_mul (num_add (Fin 0) (num_sub l' (num_div c (Fin 2)))) (Fin 255))
      in (v, v, v))"
proof -
  define hh where "hh = num_div h (Fin 60)"
  have ns: "(num_le (Fin i) hh \<and> num_lt hh (Fin j)) = False" if "0 \<le> i" "j \<le> 6" for i j
    using assms that unfolding hh_def[symmetric]
    by (cases hh) (auto simp: num_le_def)
  show ?thesis
    unfolding hsl_channels_def hh_def[symmetric] Let_def by (simp add: ns)
qed

lemma toHex_round_add_zero:
  "toHex (Math_round (num_mul (num_add (Fin 0) (num_sub a b)) (Fin 255)))
     = toHex (Math_round (num_mul (num_sub a b) (Fin 255)))"
proof (cases "num_sub a b = NZero")
  case True
  then show ?thesis
    by (simp add: num_add_def num_mul_def zero_of_def toHex_def to_digits.simps digit_char_def
        str_def)
next
  case False
  then show ?thesis
    using num_add_zero_left[of a "num_neg b"] by (simp add: num_sub_def)
qed

text \<open>
  Claim C10, as the code has it. For every \<open>s\<close> and \<open>l\<close>, \<^verbatim>\<open>hslToHex(360, s, l)\<close> is
  achromatic, its three fields being those of \<^verbatim>\<open>round((l/100 - c/2) * 255)\<close>: \<open>360 / 60\<close>
  is 6, which no sector branch accepts, and the same holds for every hue whose sixtieth is
  outside \<open>[0, 6)\<close>. So 360 is not treated as 0: at \<open>s = 100\<close>, \<open>l = 50\<close> the results are
  \<^verbatim>\<open>#000000\<close> and \<^verbatim>\<open>#ff0000\<close>.
\<close>

theorem hslToHex_360_achromatic:
  "hslToHex (Fin 360) s l =
     (let l' = num_div l (Fin 100);
          c = num_mul (num_sub (Fin 1) (Math_abs (num_sub (num_mul (Fin 2) l') (Fin 1))))
                (num_div s (Fin 100));
          v = Math_round (num_mul (num_sub l' (num_div c (Fin 2))) (Fin 255))
      in 35 # toHex v @ toHex v @ toHex v)
   \<and> (\<not> (num_le (Fin 0) (num_div h (Fin 60)) \<and> num_lt (num_div h (Fin 60)) (Fin 6))
        \<longrightarrow> (\<exists>v. hsl_channels h s l = (v, v, v)))
   \<and> num_div (Fin 360) (Fin 60) = Fin 6
   \<and> hslToHex (Fin 360) (Fin 100) (Fin 50) = str ''#000000''
   \<and> hslToHex (Fin 0) (Fin 100) (Fin 50) = str ''#ff0000''"
proof -
  have "\<not> (num_le (Fin 0) (num_div (Fin 360) (Fin 60)) \<and> num_lt (num_div (Fin 360) (Fin 60)) (Fin 6))"
    by (simp add: num_div_360_60)
  from no_sector_achromatic[OF this, of s l]
  have 1: "hslToHex (Fin 360) s l =
     (let l' = num_div l (Fin 100);
          c = num_mul (num_sub (Fin 1) (Math_abs (num_sub (num_mul (Fin 2) l') (Fin 1))))
                (num_div s (Fin 100));
          v = Math_round (num_mul (num_sub l' (num_div c (Fin 2))) (Fin 255))
      in 35 # toHex v @ toHex v @ toHex v)"
    by (simp add: hslToHex_def Let_def toHex_round_add_zero)
  have 2: "\<exists>v. hsl_channels h s l = (v, v, v)"
    if "\<not> (num_le (Fin 0) (num_div h (Fin 60)) \<and> num_lt (num_div h (Fin 60)) (Fin 6))"
    using no_sector_achromatic[OF that, of s l] by (simp add: Let_def)
  show ?thesis
    using 1 2 num_div_360_60 hslToHex_360_100_50 hslToHex_0_100_50 by blast
qed

theorem hslToHex_360_achromatic_witness:
  "hslToHex (Fin 360) (Fin 100) (Fin 50) = str ''#000000''
   \<and> (\<exists>v. hsl_channels (Fin 360) (Fin (1 / 4)) (Fin 40) = (v, v, v))"
proof -
  have "\<not> (num_le (Fin 0) (num_div (Fin 360) (Fin 60)) \<and> num_lt (num_div (Fin 360) (Fin 60)) (Fin 6))"
    by (simp add: num_div_360_60)
  then show ?thesis
    using hslToHex_360_achromatic[of "Fin (1 / 4)" "Fin 40" "Fin 360"] by blast
qed

text \<open>
  The two hues do not differ for every \<open>s\<close> in \<open>(0, 100]\<close> and \<open>l\<close> in \<open>(0, 100)\<close>: with
  a small chroma both results round to the same bytes.
\<close>

theorem hslToHex_360_counterexample:
  "(0 :: rat) < 1 / 4 \<and> (1 / 4 :: rat) \<le> 100 \<and> (0 :: rat) < 40 \<and> (40 :: rat) < 100
   \<and> hslToHex (Fin 360) (Fin (1 / 4)) (Fin 40) = hslToHex (Fin 0) (Fin (1 / 4)) (Fin 40)"
  by (simp add: hslToHex_360_quarter_40 hslToHex_0_quarter_40)

section \<open>The range of the channels\<close>

text \<open>
  The values inside \<^verbatim>\<open>hslToHex\<close> are followed through the operators by their rational
  values: a result is bounded by monotonicity of rounding between exact values, and is
  within \<open>2^-53\<close> of the exact result when that is at most 2 in magnitude.
\<close>

lemma small_pow2: "\<bar>x\<bar> \<le> 1024 \<Longrightarrow> \<bar>x\<bar> \<le> pow2 1023"
proof -
  assume "\<bar>x\<bar> \<le> 1024"
  moreover have "(1024 :: rat) = pow2 10" by (simp add: pow2_eval)
  moreover have "pow2 10 \<le> pow2 1023" by simp
  ultimately show ?thesis by linarith
qed

lemma rval_int: "\<bar>n\<bar> < 2 ^ 53 \<Longrightarrow> rval (of_int n) = of_int n"
  using rnd_int[of n] by (simp add: rnd_Fin_rval)

lemma rval_numeral [simp]: "numeral k < (2::int) ^ 53 \<Longrightarrow> rval (numeral k) = numeral k"
  using rval_int[of "numeral k"] by simp

lemma rval_neg_numeral [simp]: "numeral k < (2::int) ^ 53 \<Longrightarrow> rval (- numeral k) = - numeral k"
  by (simp add: rval_minus)

lemma rval_1 [simp]: "rval 1 = 1"
  using rval_int[of 1] by simp

lemma rval_m1 [simp]: "rval (- 1) = - 1"
  by (simp add: rval_minus)

lemma rval_between:
  assumes "a \<le> x" "x \<le> b" "rval a = a" "rval b = b"
  shows "a \<le> rval x \<and> rval x \<le> b"
  using rval_mono[OF assms(1)] rval_mono[OF assms(2)] assms(3,4) by simp

lemma add_small:
  assumes "finite_num a" "finite_num b" "\<bar>val a + val b\<bar> \<le> 1024"
  shows "finite_num (num_add a b)" "val (num_add a b) = rval (val a + val b)"
  using num_add_val[OF assms(1,2) small_pow2[OF assms(3)]] by simp_all

lemma sub_small:
  assumes "finite_num a" "finite_num b" "\<bar>val a - val b\<bar> \<le> 1024"
  shows "finite_num (num_sub a b)" "val (num_sub a b) = rval (val a - val b)"
  using num_sub_val[OF assms(1,2) small_pow2[OF assms(3)]] by simp_all

lemma mul_small:
  assumes "finite_num a" "finite_num b" "\<bar>val a * val b\<bar> \<le> 1024"
  shows "finite_num (num_mul a b)" "val (num_mul a b) = rval (val a * val b)"
  using num_mul_val[OF assms(1,2) small_pow2[OF assms(3)]] by simp_all

lemma div_small:
  assumes "finite_num a" "finite_num b" "val b \<noteq> 0" "\<bar>val a / val b\<bar> \<le> 1024"
  shows "finite_num (num_div a b)" "val (num_div a b) = rval (val a / val b)"
  using num_div_val[OF assms(1,2,3) small_pow2[OF assms(4)]] by simp_all

lemma unit_scaled:
  assumes "finite_num a" "0 \<le> val a" "val a \<le> of_nat k" "0 < k" "k \<le> 1024"
  shows "finite_num (num_div a (Fin (of_nat k)))"
    "0 \<le> val (num_div a (Fin (of_nat k)))" "val (num_div a (Fin (of_nat k))) \<le> 1"
proof -
  have k: "(0 :: rat) < of_nat k" using assms(4) by simp
  have q: "0 \<le> val a / of_nat k" "val a / of_nat k \<le> 1"
    using assms(2,3) k by (simp_all add: field_simps)
  then have "\<bar>val a / val (Fin (of_nat k))\<bar> \<le> 1024" by simp
  from div_small[OF assms(1) _ _ this] k
  have f: "finite_num (num_div a (Fin (of_nat k)))"
    "val (num_div a (Fin (of_nat k))) = rval (val a / of_nat k)" by simp_all
  show "finite_num (num_div a (Fin (of_nat k)))" by (rule f(1))
  show "0 \<le> val (num_div a (Fin (of_nat k)))" "val (num_div a (Fin (of_nat k))) \<le> 1"
    using rval_between[of 0 "val a / of_nat k" 1] q f(2) by simp_all
qed

lemma chroma_bounds:
  assumes l1: "finite_num l1" "0 \<le> val l1" "val l1 \<le> 1"
    and s1: "finite_num s1" "0 \<le> val s1" "val s1 \<le> 1"
  defines "c \<equiv> num_mul (num_sub (Fin 1) (Math_abs (num_sub (num_mul (Fin 2) l1) (Fin 1)))) s1"
  shows "finite_num c \<and> 0 \<le> val c \<and> val c \<le> 1
    \<and> val c \<le> 1 - \<bar>2 * val l1 - 1\<bar> + 4 * pow2 (- 53)"
proof -
  define a1 where "a1 = num_mul (Fin 2) l1"
  define a2 where "a2 = num_sub a1 (Fin 1)"
  define a3 where "a3 = Math_abs a2"
  define a4 where "a4 = num_sub (Fin 1) a3"
  have c: "c = num_mul a4 s1" by (simp add: c_def a4_def a3_def a2_def a1_def)
  have r1: "0 \<le> 2 * val l1" "2 * val l1 \<le> 2" using l1 by simp_all
  have a1: "finite_num a1" "val a1 = rval (2 * val l1)"
    unfolding a1_def using mul_small[of "Fin 2" l1] l1 r1 by simp_all
  have b1: "0 \<le> val a1" "val a1 \<le> 2"
    using rval_between[of 0 "2 * val l1" 2] r1 a1(2) by simp_all
  have e1: "\<bar>val a1 - 2 * val l1\<bar> \<le> pow2 (- 53)"
    using rval_err_2[of "2 * val l1"] r1 a1(2) by simp
  have a2: "finite_num a2" "val a2 = rval (val a1 - 1)"
    unfolding a2_def using sub_small[of a1 "Fin 1"] a1(1) b1 by simp_all
  have b2: "- 1 \<le> val a2" "val a2 \<le> 1"
    using rval_between[of "- 1" "val a1 - 1" 1] b1 a2(2) by simp_all
  have e2: "\<bar>val a2 - (val a1 - 1)\<bar> \<le> pow2 (- 53)"
    using rval_err_2[of "val a1 - 1"] b1 a2(2) by simp
  have a3: "finite_num a3" "val a3 = \<bar>val a2\<bar>"
    unfolding a3_def using Math_abs_val[OF a2(1)] by simp_all
  have b3: "0 \<le> val a3" "val a3 \<le> 1" using a3(2) b2 by simp_all
  have a4: "finite_num a4" "val a4 = rval (1 - val a3)"
    unfolding a4_def using sub_small[of "Fin 1" a3] a3(1) b3 by simp_all
  have b4: "0 \<le> val a4" "val a4 \<le> 1"
    using rval_between[of 0 "1 - val a3" 1] b3 a4(2) by simp_all
  have e4: "\<bar>val a4 - (1 - val a3)\<bar> \<le> pow2 (- 53)"
    using rval_err_2[of "1 - val a3"] b3 a4(2) by simp
  have p: "0 \<le> val a4 * val s1" "val a4 * val s1 \<le> val a4"
    using b4 s1 by (simp_all add: mult_left_le)
  have cv: "finite_num c" "val c = rval (val a4 * val s1)"
    unfolding c using mul_small[of a4 s1] a4(1) s1(1) p b4 by simp_all
  have bc: "0 \<le> val c" "val c \<le> 1"
    using rval_between[of 0 "val a4 * val s1" 1] p b4 cv(2) by simp_all
  have ec: "\<bar>val c - val a4 * val s1\<bar> \<le> pow2 (- 53)"
    using rval_err_2[of "val a4 * val s1"] p b4 cv(2) by simp
  have "val c \<le> 1 - \<bar>2 * val l1 - 1\<bar> + 4 * pow2 (- 53)"
    using ec p e4 a3(2) e2 e1 by linarith
  then show ?thesis using cv(1) bc by simp
qed

lemma offset_bounds:
  assumes l1: "finite_num l1" "0 \<le> val l1" "val l1 \<le> 1"
    and c: "finite_num c" "0 \<le> val c" "val c \<le> 1"
      "val c \<le> 1 - \<bar>2 * val l1 - 1\<bar> + 4 * pow2 (- 53)"
  defines "m \<equiv> num_sub l1 (num_div c (Fin 2))"
  shows "finite_num m \<and> - (4 * pow2 (- 53)) \<le> val m \<and> val m \<le> val l1 - val c / 2 + 2 * pow2 (- 53)"
proof -
  define c2 where "c2 = num_div c (Fin 2)"
  have r: "0 \<le> val c / 2" "val c / 2 \<le> 1" using c by simp_all
  have c2: "finite_num c2" "val c2 = rval (val c / 2)"
    unfolding c2_def using div_small[of c "Fin 2"] c(1) r by simp_all
  have b2: "0 \<le> val c2" "val c2 \<le> 1"
    using rval_between[of 0 "val c / 2" 1] r c2(2) by simp_all
  have e2: "\<bar>val c2 - val c / 2\<bar> \<le> pow2 (- 53)"
    using rval_err_2[of "val c / 2"] r c2(2) by simp
  have m: "finite_num m" "val m = rval (val l1 - val c2)"
    unfolding m_def c2_def[symmetric] using sub_small[of l1 c2] l1 c2(1) b2 by simp_all
  have em: "\<bar>val m - (val l1 - val c2)\<bar> \<le> pow2 (- 53)"
    using rval_err_2[of "val l1 - val c2"] l1 b2 m(2) by simp
  have "- (4 * pow2 (- 53)) \<le> val m" using em e2 c(4) by linarith
  moreover have "val m \<le> val l1 - val c / 2 + 2 * pow2 (- 53)" using em e2 by linarith
  ultimately show ?thesis using m(1) by simp
qed

lemma num_rem_2_bounds:
  assumes "finite_num hh" "0 \<le> val hh" "val hh \<le> 1024"
  shows "finite_num (num_rem hh (Fin 2)) \<and> 0 \<le> val (num_rem hh (Fin 2))
    \<and> val (num_rem hh (Fin 2)) \<le> 2"
proof (cases "is_zero hh")
  case True
  then have "num_rem hh (Fin 2) = hh"
    using assms(1) by (cases hh) (simp_all add: num_rem_def)
  then show ?thesis using assms True by (cases hh) simp_all
next
  case False
  then obtain q where q: "hh = Fin q" "q \<noteq> 0" using assms(1) by (cases hh) simp_all
  have q0: "0 \<le> q" "q \<le> 1024" using assms(2,3) q by simp_all
  define r where "r = q - 2 * of_int (trunc (q / 2))"
  have t: "trunc (q / 2) = \<lfloor>q / 2\<rfloor>" using q0 by (simp add: trunc_def)
  have "of_int \<lfloor>q / 2\<rfloor> \<le> q / 2" "q / 2 < of_int \<lfloor>q / 2\<rfloor> + 1" by linarith+
  then have r: "0 \<le> r" "r < 2" unfolding r_def t by linarith+
  have nr: "num_rem hh (Fin 2) = (if r = 0 then Fin 0 else rnd r)"
    using q q0 by (simp add: num_rem_def Let_def r_def zero_of_def)
  show ?thesis
  proof (cases "r = 0")
    case True
    then show ?thesis using nr by simp
  next
    case False
    have "\<bar>r\<bar> \<le> 1024" using r by simp
    then have "finite_num (rnd r)" "val (rnd r) = rval r" using rnd_val[OF small_pow2] by simp_all
    moreover have "0 \<le> rval r \<and> rval r \<le> 2" using rval_between[of 0 r 2] r by simp
    ultimately show ?thesis using nr False by simp
  qed
qed

lemma weight_bounds:
  assumes "finite_num hh" "0 \<le> val hh" "val hh \<le> 1024"
  defines "w \<equiv> num_sub (Fin 1) (Math_abs (num_sub (num_rem hh (Fin 2)) (Fin 1)))"
  shows "finite_num w \<and> 0 \<le> val w \<and> val w \<le> 1"
proof -
  define a1 where "a1 = num_rem hh (Fin 2)"
  define a2 where "a2 = num_sub a1 (Fin 1)"
  define a3 where "a3 = Math_abs a2"
  have w: "w = num_sub (Fin 1) a3" by (simp add: w_def a3_def a2_def a1_def)
  have a1: "finite_num a1" "0 \<le> val a1" "val a1 \<le> 2"
    unfolding a1_def using num_rem_2_bounds[OF assms(1,2,3)] by simp_all
  have a2: "finite_num a2" "val a2 = rval (val a1 - 1)"
    unfolding a2_def using sub_small[of a1 "Fin 1"] a1 by simp_all
  have b2: "- 1 \<le> val a2" "val a2 \<le> 1"
    using rval_between[of "- 1" "val a1 - 1" 1] a1 a2(2) by simp_all
  have a3: "finite_num a3" "val a3 = \<bar>val a2\<bar>"
    unfolding a3_def using Math_abs_val[OF a2(1)] by simp_all
  have b3: "0 \<le> val a3" "val a3 \<le> 1" using a3(2) b2 by simp_all
  have a4: "finite_num w" "val w = rval (1 - val a3)"
    unfolding w using sub_small[of "Fin 1" a3] a3(1) b3 by simp_all
  have "0 \<le> val w" "val w \<le> 1"
    using rval_between[of 0 "1 - val a3" 1] b3 a4(2) by simp_all
  then show ?thesis using a4(1) by simp
qed

lemma scaled_chroma_bounds:
  assumes "finite_num c" "0 \<le> val c" "val c \<le> 1" "finite_num w" "0 \<le> val w" "val w \<le> 1"
  shows "finite_num (num_mul c w) \<and> 0 \<le> val (num_mul c w)
    \<and> val (num_mul c w) \<le> val c + pow2 (- 53)"
proof -
  have p: "0 \<le> val c * val w" "val c * val w \<le> val c"
    using assms by (simp_all add: mult_left_le)
  have x: "finite_num (num_mul c w)" "val (num_mul c w) = rval (val c * val w)"
    using mul_small[of c w] assms p by simp_all
  have "0 \<le> rval (val c * val w)" using rval_nonneg p by simp
  moreover have "\<bar>rval (val c * val w) - val c * val w\<bar> \<le> pow2 (- 53)"
    using rval_err_2[of "val c * val w"] p assms by simp
  ultimately show ?thesis using x p by simp
qed

lemma to_digits_16_byte:
  "n < 256 \<Longrightarrow> to_digits 16 n = (if n < 16 then [n] else [n div 16, n mod 16])"
  by (subst to_digits.simps, subst to_digits.simps) (simp add: div_less_iff_less_mult)

lemma toHex_byte:
  assumes "n \<le> 255"
  shows "toHex (Fin (of_nat n)) = [digit_char (n div 16), digit_char (n mod 16)]"
  using assms
  by (auto simp: toHex_def padStart_def to_digits_16_byte digit_char_def)

lemma toHex_NZero: "toHex NZero = [digit_char 0, digit_char 0]"
  by (simp add: toHex_def padStart_def str_def digit_char_def)

lemma channel_byte:
  assumes "finite_num v" "finite_num m"
    and "- pow2 (- 10) \<le> val v + val m" "val v + val m \<le> 1 + pow2 (- 10)"
  defines "ch \<equiv> Math_round (num_mul (num_add v m) (Fin 255))"
  shows "\<exists>n\<le>255. num_eq ch (num n) \<and> toHex ch = [digit_char (n div 16), digit_char (n mod 16)]"
proof -
  define a where "a = num_add v m"
  define p where "p = num_mul a (Fin 255)"
  have lo: "rval (- pow2 (- 10)) = - pow2 (- 10)"
    using rval_pow2[of "- 10"] by (simp add: rval_minus)
  have hi: "rval (1 + pow2 (- 10)) = 1 + pow2 (- 10)"
    using rval_exact[of "- 10" 1025] by (simp add: pow2_eval)
  have s: "\<bar>val v + val m\<bar> \<le> 1024" using assms(3,4) by (simp add: pow2_eval abs_if)
  have a: "finite_num a" "val a = rval (val v + val m)"
    unfolding a_def using add_small[OF assms(1,2) s] by simp_all
  have ba: "- pow2 (- 10) \<le> val a" "val a \<le> 1 + pow2 (- 10)"
    using rval_between[OF assms(3,4) lo hi] a(2) by simp_all
  then have r: "- (1 / 4) \<le> val a * 255" "val a * 255 \<le> 1021 / 4"
    by (simp_all add: pow2_eval)
  have lo2: "rval (- (1 / 4)) = - (1 / 4)"
    using rval_exact[of "- 2" 1] by (simp add: rval_minus pow2_eval)
  have hi2: "rval (1021 / 4) = 1021 / 4"
    using rval_exact[of "- 2" 1021] by (simp add: pow2_eval)
  have "\<bar>val a * val (Fin 255)\<bar> \<le> 1024" using r by (simp add: abs_if)
  from mul_small[OF a(1) _ this]
  have p: "finite_num p" "val p = rval (val a * 255)" unfolding p_def by simp_all
  have bp: "- (1 / 4) \<le> val p" "val p \<le> 1021 / 4"
    using rval_between[OF r lo2 hi2] p(2) by simp_all
  define k where "k = \<lfloor>val p + 1 / 2\<rfloor>"
  have k: "0 \<le> k" "k \<le> 255" unfolding k_def using bp by (simp_all add: le_floor_iff floor_le_iff)
  have chv: "ch = Math_round p" by (simp add: ch_def p_def a_def)
  have "ch = NZero \<and> k = 0 \<or> ch = Fin (of_int k)"
  proof (cases p)
    case NZero
    then show ?thesis unfolding chv k_def by simp
  next
    case (Fin q)
    then show ?thesis unfolding chv k_def by (simp add: Let_def)
  qed (use p(1) in simp_all)
  then have "num_eq ch (num (nat k)) \<and> toHex ch = [digit_char (nat k div 16), digit_char (nat k mod 16)]"
  proof
    assume "ch = NZero \<and> k = 0"
    then show ?thesis by (simp add: toHex_NZero num_def)
  next
    assume c: "ch = Fin (of_int k)"
    define n where "n = nat k"
    have "int n = k" using k by (simp add: n_def)
    then have "(of_int k :: rat) = of_nat n" by (metis of_int_of_nat_eq)
    then have cn: "ch = Fin (of_nat n)" by (simp only: c)
    have "n \<le> 255" using k by (simp add: n_def)
    then have "toHex ch = [digit_char (n div 16), digit_char (n mod 16)]"
      unfolding cn by (rule toHex_byte)
    moreover have "num_eq ch (num n)" unfolding cn num_def by simp
    ultimately show ?thesis by (simp only: n_def)
  qed
  moreover have "nat k \<le> 255" using k by simp
  ultimately show ?thesis by blast
qed

lemma in_range_finite:
  assumes "num_le (Fin a) x" "num_le x (Fin b)"
  shows "finite_num x \<and> a \<le> val x \<and> val x \<le> b"
  using assms by (cases x) (auto simp: num_le_def)

lemma in_range_finite_lt:
  assumes "num_le (Fin a) x" "num_lt x (Fin b)"
  shows "finite_num x \<and> a \<le> val x \<and> val x < b"
  using assms by (cases x) (auto simp: num_le_def)

lemma digit_char_hex: "d < 16 \<Longrightarrow> is_hex (digit_char d)"
  by (auto simp: digit_char_def is_hex_def)

text \<open>
  Claim C8. For \<open>h\<close> in \<open>[0, 360)\<close> and \<open>s\<close>, \<open>l\<close> in \<open>[0, 100]\<close>, compared as JavaScript
  compares them, each of the three rounded channels of \<^verbatim>\<open>hslToHex\<close> is a whole number
  from 0 to 255, with no clamping in the code, and the result is \<^verbatim>\<open>#\<close> followed by the
  two hexadecimal digits of each channel.
\<close>

theorem hslToHex_bytes:
  assumes "num_le (Fin 0) h" "num_lt h (Fin 360)"
    and "num_le (Fin 0) s" "num_le s (Fin 100)"
    and "num_le (Fin 0) l" "num_le l (Fin 100)"
  shows "\<exists>r g b. r \<le> 255 \<and> g \<le> 255 \<and> b \<le> 255
    \<and> (case hsl_channels h s l of (cr, cg, cb) \<Rightarrow>
          num_eq cr (num r) \<and> num_eq cg (num g) \<and> num_eq cb (num b))
    \<and> hslToHex h s l =
          [35, digit_char (r div 16), digit_char (r mod 16), digit_char (g div 16),
           digit_char (g mod 16), digit_char (b div 16), digit_char (b mod 16)]
    \<and> is_hex (digit_char (r div 16)) \<and> is_hex (digit_char (r mod 16))
    \<and> is_hex (digit_char (g div 16)) \<and> is_hex (digit_char (g mod 16))
    \<and> is_hex (digit_char (b div 16)) \<and> is_hex (digit_char (b mod 16))"
proof -
  define s1 where "s1 = num_div s (Fin 100)"
  define l1 where "l1 = num_div l (Fin 100)"
  define c where "c = num_mul (num_sub (Fin 1) (Math_abs (num_sub (num_mul (Fin 2) l1) (Fin 1)))) s1"
  define hh where "hh = num_div h (Fin 60)"
  define w where "w = num_sub (Fin 1) (Math_abs (num_sub (num_rem hh (Fin 2)) (Fin 1)))"
  define x where "x = num_mul c w"
  define m where "m = num_sub l1 (num_div c (Fin 2))"
  define rgb where "rgb =
     (if num_le (Fin 0) hh \<and> num_lt hh (Fin 1) then (c, x, Fin 0)
      else if num_le (Fin 1) hh \<and> num_lt hh (Fin 2) then (x, c, Fin 0)
      else if num_le (Fin 2) hh \<and> num_lt hh (Fin 3) then (Fin 0, c, x)
      else if num_le (Fin 3) hh \<and> num_lt hh (Fin 4) then (Fin 0, x, c)
      else if num_le (Fin 4) hh \<and> num_lt hh (Fin 5) then (x, Fin 0, c)
      else if num_le (Fin 5) hh \<and> num_lt hh (Fin 6) then (c, Fin 0, x)
      else (Fin 0, Fin 0, Fin 0))"
  define ch where "ch = (\<lambda>v. Math_round (num_mul (num_add v m) (Fin 255)))"
  have chan: "hsl_channels h s l = (case rgb of (r, g, b) \<Rightarrow> (ch r, ch g, ch b))"
    unfolding hsl_channels_def Let_def rgb_def ch_def m_def x_def w_def hh_def c_def l1_def s1_def
    by (rule refl)
  have fs: "finite_num s" "0 \<le> val s" "val s \<le> 100"
    using in_range_finite[OF assms(3,4)] by simp_all
  have fl: "finite_num l" "0 \<le> val l" "val l \<le> 100"
    using in_range_finite[OF assms(5,6)] by simp_all
  have fh: "finite_num h" "0 \<le> val h" "val h < 360"
    using in_range_finite_lt[OF assms(1,2)] by simp_all
  have s1: "finite_num s1" "0 \<le> val s1" "val s1 \<le> 1"
    unfolding s1_def using unit_scaled[of s 100] fs by simp_all
  have l1: "finite_num l1" "0 \<le> val l1" "val l1 \<le> 1"
    unfolding l1_def using unit_scaled[of l 100] fl by simp_all
  have qh: "0 \<le> val h / 60" "val h / 60 \<le> 6" using fh by simp_all
  then have "\<bar>val h / val (Fin 60)\<bar> \<le> 1024" by simp
  from div_small[OF fh(1) _ _ this]
  have hh: "finite_num hh" "val hh = rval (val h / 60)" unfolding hh_def by simp_all
  have bh: "0 \<le> val hh" "val hh \<le> 1024"
    using rval_between[of 0 "val h / 60" 6] qh hh(2) by simp_all
  have cb: "finite_num c" "0 \<le> val c" "val c \<le> 1"
    "val c \<le> 1 - \<bar>2 * val l1 - 1\<bar> + 4 * pow2 (- 53)"
    unfolding c_def using chroma_bounds[OF l1 s1] by simp_all
  have mb: "finite_num m" "- (4 * pow2 (- 53)) \<le> val m"
    "val m \<le> val l1 - val c / 2 + 2 * pow2 (- 53)"
    unfolding m_def using offset_bounds[OF l1 cb] by simp_all
  have wb: "finite_num w" "0 \<le> val w" "val w \<le> 1"
    unfolding w_def using weight_bounds[OF hh(1) bh] by simp_all
  have xb: "finite_num x" "0 \<le> val x" "val x \<le> val c + pow2 (- 53)"
    unfolding x_def using scaled_chroma_bounds[OF cb(1,2,3) wb] by simp_all
  have eps: "8 * pow2 (- 53) \<le> pow2 (- 10)" by (simp add: pow2_eval)
  have e0: "0 < pow2 (- 53)" by (rule pow2_pos)
  define P where "P = (\<lambda>v. finite_num v \<and> - pow2 (- 10) \<le> val v + val m
      \<and> val v + val m \<le> 1 + pow2 (- 10))"
  have "- pow2 (- 10) \<le> val c + val m" "val c + val m \<le> 1 + pow2 (- 10)"
    using cb(2,4) mb(2,3) l1(2,3) eps e0 by linarith+
  then have Pc: "P c" unfolding P_def using cb(1) by simp
  have "- pow2 (- 10) \<le> val x + val m" "val x + val m \<le> 1 + pow2 (- 10)"
    using xb(2,3) cb(2,4) mb(2,3) l1(2,3) eps e0 by linarith+
  then have Px: "P x" unfolding P_def using xb(1) by simp
  have "- pow2 (- 10) \<le> val (Fin 0) + val m" "val (Fin 0) + val m \<le> 1 + pow2 (- 10)"
    using cb(2,4) mb(2,3) l1(2,3) eps e0 by (simp_all only: val.simps)
  then have P0: "P (Fin 0)" unfolding P_def by simp
  have "\<exists>vr vg vb. rgb = (vr, vg, vb) \<and> P vr \<and> P vg \<and> P vb"
    unfolding rgb_def using Pc Px P0 by simp
  then obtain vr vg vb where v: "rgb = (vr, vg, vb)" "P vr" "P vg" "P vb"
    by blast
  have byte: "\<exists>n\<le>255. num_eq (ch v) (num n) \<and> toHex (ch v) = [digit_char (n div 16), digit_char (n mod 16)]"
    if "P v" for v
    using that channel_byte[of v m] mb(1) unfolding P_def ch_def by simp
  obtain r where r: "r \<le> 255" "num_eq (ch vr) (num r)"
    "toHex (ch vr) = [digit_char (r div 16), digit_char (r mod 16)]"
    using byte[OF v(2)] by blast
  obtain g where g: "g \<le> 255" "num_eq (ch vg) (num g)"
    "toHex (ch vg) = [digit_char (g div 16), digit_char (g mod 16)]"
    using byte[OF v(3)] by blast
  obtain b where b: "b \<le> 255" "num_eq (ch vb) (num b)"
    "toHex (ch vb) = [digit_char (b div 16), digit_char (b mod 16)]"
    using byte[OF v(4)] by blast
  have hx: "is_hex (digit_char (n div 16))" "is_hex (digit_char (n mod 16))" if "n \<le> 255" for n
    using that by (simp_all add: digit_char_hex div_less_iff_less_mult)
  have c1: "hsl_channels h s l = (ch vr, ch vg, ch vb)" by (simp add: chan v(1))
  have A: "hslToHex h s l =
          [35, digit_char (r div 16), digit_char (r mod 16), digit_char (g div 16),
           digit_char (g mod 16), digit_char (b div 16), digit_char (b mod 16)]"
    by (simp add: hslToHex_def c1 r(3) g(3) b(3))
  have B: "case hsl_channels h s l of (cr, cg, cb) \<Rightarrow>
          num_eq cr (num r) \<and> num_eq cg (num g) \<and> num_eq cb (num b)"
    by (simp add: c1 r(2) g(2) b(2))
  show ?thesis
    by (rule exI[of _ r], rule exI[of _ g], rule exI[of _ b])
      (simp only: r(1) g(1) b(1) A B hx[OF r(1)] hx[OF g(1)] hx[OF b(1)] simp_thms)
qed

theorem hslToHex_bytes_witness:
  "num_le (Fin 0) (Fin 120) \<and> num_lt (Fin 120) (Fin 360)
   \<and> num_le (Fin 0) (Fin 100) \<and> num_le (Fin 100) (Fin 100)
   \<and> num_le (Fin 0) (Fin 50) \<and> num_le (Fin 50) (Fin 100)
   \<and> (\<exists>r g b. r \<le> 255 \<and> g \<le> 255 \<and> b \<le> 255
        \<and> hslToHex (Fin 120) (Fin 100) (Fin 50) =
          [35, digit_char (r div 16), digit_char (r mod 16), digit_char (g div 16),
           digit_char (g mod 16), digit_char (b div 16), digit_char (b mod 16)])"
proof -
  have r: "num_le (Fin 0) (Fin 120)" "num_lt (Fin 120) (Fin 360)"
    "num_le (Fin 0) (Fin 100)" "num_le (Fin 100) (Fin 100)"
    "num_le (Fin 0) (Fin 50)" "num_le (Fin 50) (Fin 100)"
    by (simp_all add: num_le_def)
  from hslToHex_bytes[OF this] show ?thesis using r by blast
qed

section \<open>Error bounds of the operators\<close>

text \<open>
  Each operator keeps an approximation: if the operands are within \<open>da\<close> and \<open>db\<close> of exact
  values, the result is within the propagated error plus half a unit in the last place of
  the exact result.
\<close>

lemma near_Fin [simp]: "near (Fin q) q 0"
  by (simp add: near_def)

lemma near_weaken: "near a x d \<Longrightarrow> d \<le> d' \<Longrightarrow> near a x d'"
  by (auto simp: near_def)

lemma near_finite: "near a x d \<Longrightarrow> finite_num a"
  by (simp add: near_def)

lemma near_abs: "near a x d \<Longrightarrow> near (Math_abs a) \<bar>x\<bar> d"
  using Math_abs_val[of a] by (auto simp: near_def)

lemma pow2_le_1024: "e \<le> 10 \<Longrightarrow> pow2 e \<le> 1024"
proof -
  assume "e \<le> 10"
  then have "pow2 e \<le> pow2 10" by simp
  then show ?thesis by (simp add: pow2_eval)
qed

lemma near_rnd:
  assumes "\<bar>v - x\<bar> \<le> d0" "\<bar>v\<bar> \<le> pow2 e" "- 1021 \<le> e" "e \<le> 10"
    and "d0 + pow2 (e - 54) \<le> d"
    and "finite_num a" "val a = rval v"
  shows "near a x d"
proof -
  have "\<bar>rval v - v\<bar> \<le> pow2 (e - 54)" using rval_err_pow2[OF assms(2,3)] .
  then have "\<bar>val a - x\<bar> \<le> d" using assms(1,5,7) by linarith
  then show ?thesis using assms(6) by (simp add: near_def)
qed

lemma near_add:
  assumes "near a x da" "near b y db"
    and "\<bar>x + y\<bar> + da + db \<le> pow2 e" "- 1021 \<le> e" "e \<le> 10"
    and "da + db + pow2 (e - 54) \<le> d"
  shows "near (num_add a b) (x + y) d"
proof -
  have f: "finite_num a" "finite_num b" "\<bar>val a - x\<bar> \<le> da" "\<bar>val b - y\<bar> \<le> db"
    using assms(1,2) by (simp_all add: near_def)
  have m: "\<bar>val a + val b\<bar> \<le> pow2 e" using f(3,4) assms(3) by linarith
  then have "\<bar>val a + val b\<bar> \<le> 1024" using pow2_le_1024[OF assms(5)] by linarith
  from add_small[OF f(1,2) this]
  have s: "finite_num (num_add a b)" "val (num_add a b) = rval (val a + val b)" by simp_all
  have e0: "\<bar>val a + val b - (x + y)\<bar> \<le> da + db" using f(3,4) by linarith
  show ?thesis by (rule near_rnd[OF e0 m assms(4,5,6) s])
qed

lemma near_sub:
  assumes "near a x da" "near b y db"
    and "\<bar>x - y\<bar> + da + db \<le> pow2 e" "- 1021 \<le> e" "e \<le> 10"
    and "da + db + pow2 (e - 54) \<le> d"
  shows "near (num_sub a b) (x - y) d"
proof -
  have f: "finite_num a" "finite_num b" "\<bar>val a - x\<bar> \<le> da" "\<bar>val b - y\<bar> \<le> db"
    using assms(1,2) by (simp_all add: near_def)
  have m: "\<bar>val a - val b\<bar> \<le> pow2 e" using f(3,4) assms(3) by linarith
  then have "\<bar>val a - val b\<bar> \<le> 1024" using pow2_le_1024[OF assms(5)] by linarith
  from sub_small[OF f(1,2) this]
  have s: "finite_num (num_sub a b)" "val (num_sub a b) = rval (val a - val b)" by simp_all
  have e0: "\<bar>val a - val b - (x - y)\<bar> \<le> da + db" using f(3,4) by linarith
  show ?thesis by (rule near_rnd[OF e0 m assms(4,5,6) s])
qed

lemma mul_err:
  fixes a b x y :: rat
  assumes "\<bar>a - x\<bar> \<le> da" "\<bar>b - y\<bar> \<le> db" "\<bar>x\<bar> \<le> X" "\<bar>y\<bar> \<le> Y"
  shows "\<bar>a * b - x * y\<bar> \<le> da * (Y + db) + X * db" "\<bar>a * b\<bar> \<le> (X + da) * (Y + db)"
proof -
  have da: "0 \<le> da" and db: "0 \<le> db" and X: "0 \<le> X" using assms by linarith+
  have b: "\<bar>b\<bar> \<le> Y + db" and a: "\<bar>a\<bar> \<le> X + da" using assms by linarith+
  have "a * b - x * y = (a - x) * b + x * (b - y)" by (simp add: algebra_simps)
  then have "\<bar>a * b - x * y\<bar> \<le> \<bar>a - x\<bar> * \<bar>b\<bar> + \<bar>x\<bar> * \<bar>b - y\<bar>"
    by (metis abs_mult abs_triangle_ineq)
  also have "\<dots> \<le> da * (Y + db) + X * db"
    by (intro add_mono mult_mono) (use assms a b da db X in simp_all)
  finally show "\<bar>a * b - x * y\<bar> \<le> da * (Y + db) + X * db" .
  have "\<bar>a * b\<bar> = \<bar>a\<bar> * \<bar>b\<bar>" by (rule abs_mult)
  also have "\<dots> \<le> (X + da) * (Y + db)"
    by (intro mult_mono) (use a b X da in simp_all)
  finally show "\<bar>a * b\<bar> \<le> (X + da) * (Y + db)" .
qed

lemma near_mul:
  assumes "near a x da" "near b y db" "\<bar>x\<bar> \<le> X" "\<bar>y\<bar> \<le> Y"
    and "(X + da) * (Y + db) \<le> pow2 e" "- 1021 \<le> e" "e \<le> 10"
    and "da * (Y + db) + X * db + pow2 (e - 54) \<le> d"
  shows "near (num_mul a b) (x * y) d"
proof -
  have f: "finite_num a" "finite_num b" "\<bar>val a - x\<bar> \<le> da" "\<bar>val b - y\<bar> \<le> db"
    using assms(1,2) by (simp_all add: near_def)
  note me = mul_err[OF f(3,4) assms(3,4)]
  have m: "\<bar>val a * val b\<bar> \<le> pow2 e" using me(2) assms(5) by linarith
  then have "\<bar>val a * val b\<bar> \<le> 1024" using pow2_le_1024[OF assms(7)] by linarith
  from mul_small[OF f(1,2) this]
  have s: "finite_num (num_mul a b)" "val (num_mul a b) = rval (val a * val b)" by simp_all
  show ?thesis by (rule near_rnd[OF me(1) m assms(6,7,8) s])
qed

lemma div_err:
  fixes a b x y :: rat
  assumes "\<bar>a - x\<bar> \<le> da" "\<bar>b - y\<bar> \<le> db" "\<bar>x\<bar> \<le> X" "y0 \<le> y" "db < y0"
  shows "\<bar>a / b - x / y\<bar> \<le> (da + X * db / y0) / (y0 - db)" "\<bar>a / b\<bar> \<le> (X + da) / (y0 - db)"
    "0 < b"
proof -
  have da: "0 \<le> da" and db: "0 \<le> db" and X: "0 \<le> X" using assms by linarith+
  have y0: "0 < y0" using assms(5) db by linarith
  have y: "0 < y" using y0 assms(4) by linarith
  have b: "y0 - db \<le> b" "0 < y0 - db" using assms by linarith+
  then show b0: "0 < b" by linarith
  have a: "\<bar>a\<bar> \<le> X + da" using assms by linarith
  have "a / b - x / y = ((a - x) + x * (y - b) / y) / b"
    using b0 y by (simp add: field_simps)
  then have "\<bar>a / b - x / y\<bar> = \<bar>(a - x) + x * (y - b) / y\<bar> / b"
    using b0 by (simp add: abs_divide abs_of_pos)
  also have "\<bar>(a - x) + x * (y - b) / y\<bar> \<le> \<bar>a - x\<bar> + \<bar>x * (y - b) / y\<bar>"
    by (rule abs_triangle_ineq)
  also have "\<bar>x * (y - b) / y\<bar> = \<bar>x\<bar> * \<bar>y - b\<bar> / y"
    using y by (simp add: abs_mult abs_divide abs_of_pos)
  also have "\<bar>x\<bar> * \<bar>y - b\<bar> / y \<le> X * db / y0"
    by (intro frac_le mult_mono) (use assms y0 X db in simp_all)
  finally have n: "\<bar>a / b - x / y\<bar> \<le> (\<bar>a - x\<bar> + X * db / y0) / b"
    using b0 by (simp add: divide_right_mono)
  have "(\<bar>a - x\<bar> + X * db / y0) / b \<le> (da + X * db / y0) / (y0 - db)"
    by (intro frac_le add_mono) (use assms b X db y0 in simp_all)
  then show "\<bar>a / b - x / y\<bar> \<le> (da + X * db / y0) / (y0 - db)" using n by linarith
  have "\<bar>a / b\<bar> = \<bar>a\<bar> / b" using b0 by (simp add: abs_divide abs_of_pos)
  also have "\<dots> \<le> (X + da) / (y0 - db)"
    by (intro frac_le) (use a b X da in simp_all)
  finally show "\<bar>a / b\<bar> \<le> (X + da) / (y0 - db)" .
qed

lemma near_div:
  assumes "near a x da" "near b y db" "\<bar>x\<bar> \<le> X" "y0 \<le> y" "db < y0"
    and "(X + da) / (y0 - db) \<le> pow2 e" "- 1021 \<le> e" "e \<le> 10"
    and "(da + X * db / y0) / (y0 - db) + pow2 (e - 54) \<le> d"
  shows "near (num_div a b) (x / y) d"
proof -
  have f: "finite_num a" "finite_num b" "\<bar>val a - x\<bar> \<le> da" "\<bar>val b - y\<bar> \<le> db"
    using assms(1,2) by (simp_all add: near_def)
  note de = div_err[OF f(3,4) assms(3,4,5)]
  have m: "\<bar>val a / val b\<bar> \<le> pow2 e" using de(2) assms(6) by linarith
  then have "\<bar>val a / val b\<bar> \<le> 1024" using pow2_le_1024[OF assms(8)] by linarith
  moreover have "val b \<noteq> 0" using de(3) by simp
  ultimately have s: "finite_num (num_div a b)" "val (num_div a b) = rval (val a / val b)"
    using div_small[OF f(1,2)] by simp_all
  show ?thesis by (rule near_rnd[OF de(1) m assms(7,8,9) s])
qed

section \<open>hslToHex on approximate arguments\<close>

lemma unit_near:
  assumes "near a (of_nat k * x) d0" "0 \<le> x" "x \<le> 1" "0 < k" "k \<le> 512" "d0 \<le> 1"
    and "d0 / of_nat k + pow2 (- 53) \<le> d"
  shows "near (num_div a (Fin (of_nat k))) x d"
proof -
  have k: "(0::rat) < of_nat k" "(of_nat k :: rat) \<noteq> 0" using assms(4) by simp_all
  have n: "near (Fin (of_nat k)) (of_nat k) 0" by simp
  have X: "\<bar>of_nat k * x\<bar> \<le> of_nat k" using assms(2,3) k by (simp add: abs_mult mult_left_le)
  have "(of_nat k + d0) / of_nat k \<le> 2"
    using k assms(4,6) by (simp add: field_simps)
  then have b: "(of_nat k + d0) / (of_nat k - 0) \<le> pow2 1" by (simp add: pow2_eval)
  have d: "(d0 + of_nat k * 0 / of_nat k) / (of_nat k - 0) + pow2 (1 - 54) \<le> d"
    using assms(7) by simp
  have "near (num_div a (Fin (of_nat k))) (of_nat k * x / of_nat k) d"
    by (rule near_div[OF assms(1) n X order_refl _ b _ _ d]) (use k in simp_all)
  then show ?thesis using k by simp
qed

lemma chroma_near:
  assumes l1: "near l1 Lx (pow2 (- 49))" and s1: "near s1 S (pow2 (- 28))"
    and r: "0 \<le> Lx" "Lx \<le> 1" "0 \<le> S" "S \<le> 1"
  shows "near (num_mul (num_sub (Fin 1) (Math_abs (num_sub (num_mul (Fin 2) l1) (Fin 1)))) s1)
    ((1 - \<bar>2 * Lx - 1\<bar>) * S) (pow2 (- 27))"
proof -
  have a1: "near (num_mul (Fin 2) l1) (2 * Lx) (pow2 (- 47))"
    by (rule near_mul[OF near_Fin l1, where X = 2 and Y = 1 and e = 2])
      (use r in \<open>simp_all add: pow2_eval\<close>)
  have a2: "near (num_sub (num_mul (Fin 2) l1) (Fin 1)) (2 * Lx - 1) (pow2 (- 46))"
    by (rule near_sub[OF a1 near_Fin, where e = 1])
      (use r in \<open>simp_all add: pow2_eval\<close>)
  have a3: "near (Math_abs (num_sub (num_mul (Fin 2) l1) (Fin 1))) \<bar>2 * Lx - 1\<bar> (pow2 (- 46))"
    by (rule near_abs[OF a2])
  have a4: "near (num_sub (Fin 1) (Math_abs (num_sub (num_mul (Fin 2) l1) (Fin 1))))
      (1 - \<bar>2 * Lx - 1\<bar>) (pow2 (- 45))"
    by (rule near_sub[OF near_Fin a3, where e = 1])
      (use r in \<open>simp_all add: pow2_eval\<close>)
  have K: "\<bar>1 - \<bar>2 * Lx - 1\<bar>\<bar> \<le> 1" using r by simp
  have S: "\<bar>S\<bar> \<le> 1" using r by simp
  show ?thesis
    by (rule near_mul[OF a4 s1 K S, where e = 1]) (simp_all add: pow2_eval)
qed

lemma offset_near:
  assumes l1: "near l1 Lx (pow2 (- 49))" and c: "near c C (pow2 (- 27))"
    and r: "0 \<le> Lx" "Lx \<le> 1" "0 \<le> C" "C \<le> 1"
  shows "near (num_sub l1 (num_div c (Fin 2))) (Lx - C / 2) (pow2 (- 26))"
proof -
  have C: "\<bar>C\<bar> \<le> 1" using r by simp
  have c2: "near (num_div c (Fin 2)) (C / 2) (pow2 (- 27))"
    by (rule near_div[OF c near_Fin C, where ?y0.0 = 2 and e = 0]) (simp_all add: pow2_eval)
  show ?thesis
    by (rule near_sub[OF l1 c2, where e = 1]) (use r in \<open>simp_all add: pow2_eval\<close>)
qed

lemma num_rem_2_near:
  assumes "finite_num hh" "0 \<le> val hh" "val hh < 6"
  shows "near (num_rem hh (Fin 2)) (val hh - 2 * of_int \<lfloor>val hh / 2\<rfloor>) (pow2 (- 53))"
proof (cases "is_zero hh")
  case True
  then have "num_rem hh (Fin 2) = hh" "val hh = 0"
    using assms(1) by (cases hh; simp add: num_rem_def)+
  then show ?thesis using assms(1) by (simp add: near_def)
next
  case False
  then obtain q where q: "hh = Fin q" "q \<noteq> 0" using assms(1) by (cases hh) simp_all
  have q0: "0 \<le> q" "q < 6" using assms(2,3) q by simp_all
  define r where "r = q - 2 * of_int \<lfloor>q / 2\<rfloor>"
  have t: "trunc (q / 2) = \<lfloor>q / 2\<rfloor>" using q0 by (simp add: trunc_def)
  have "of_int \<lfloor>q / 2\<rfloor> \<le> q / 2" "q / 2 < of_int \<lfloor>q / 2\<rfloor> + 1" by linarith+
  then have r: "0 \<le> r" "r < 2" unfolding r_def by linarith+
  have nr: "num_rem hh (Fin 2) = (if r = 0 then Fin 0 else rnd r)"
    using q q0 by (simp add: num_rem_def Let_def r_def zero_of_def t)
  show ?thesis
  proof (cases "r = 0")
    case True
    then show ?thesis using nr q by (simp add: near_def r_def)
  next
    case False
    have "\<bar>r\<bar> \<le> 1024" using r by simp
    then have f: "finite_num (rnd r)" "val (rnd r) = rval r" using rnd_val[OF small_pow2] by simp_all
    have "\<bar>rval r - r\<bar> \<le> pow2 (- 53)" using rval_err_2[of r] r by simp
    then show ?thesis using nr False f q by (simp add: near_def r_def)
  qed
qed

lemma weight_near:
  assumes "finite_num hh" "0 \<le> val hh" "val hh < 6"
  shows "near (num_sub (Fin 1) (Math_abs (num_sub (num_rem hh (Fin 2)) (Fin 1)))) (tri (val hh))
    (pow2 (- 51))"
proof -
  define u where "u = val hh - 2 * of_int \<lfloor>val hh / 2\<rfloor>"
  have "of_int \<lfloor>val hh / 2\<rfloor> \<le> val hh / 2" "val hh / 2 < of_int \<lfloor>val hh / 2\<rfloor> + 1"
    by linarith+
  then have u: "0 \<le> u" "u < 2" unfolding u_def by linarith+
  have a1: "near (num_rem hh (Fin 2)) u (pow2 (- 53))"
    unfolding u_def by (rule num_rem_2_near[OF assms])
  have a2: "near (num_sub (num_rem hh (Fin 2)) (Fin 1)) (u - 1) (pow2 (- 52))"
    by (rule near_sub[OF a1 near_Fin, where e = 1]) (use u in \<open>simp_all add: pow2_eval\<close>)
  have a3: "near (Math_abs (num_sub (num_rem hh (Fin 2)) (Fin 1))) \<bar>u - 1\<bar> (pow2 (- 52))"
    by (rule near_abs[OF a2])
  have "near (num_sub (Fin 1) (Math_abs (num_sub (num_rem hh (Fin 2)) (Fin 1)))) (1 - \<bar>u - 1\<bar>)
    (pow2 (- 51))"
    by (rule near_sub[OF near_Fin a3, where e = 1]) (use u in \<open>simp_all add: pow2_eval\<close>)
  then show ?thesis by (simp add: tri_def u_def)
qed

lemma rho_lipschitz:
  "\<bar>rho_r t - rho_r u\<bar> \<le> \<bar>t - u\<bar>" "\<bar>rho_g t - rho_g u\<bar> \<le> \<bar>t - u\<bar>"
  "\<bar>rho_b t - rho_b u\<bar> \<le> \<bar>t - u\<bar>"
  unfolding rho_r_def rho_g_def rho_b_def by linarith+

lemma rho_range:
  "0 \<le> rho_r t" "rho_r t \<le> 1" "0 \<le> rho_g t" "rho_g t \<le> 1" "0 \<le> rho_b t" "rho_b t \<le> 1"
  unfolding rho_r_def rho_g_def rho_b_def by linarith+

lemma floor_half_sector:
  "0 \<le> t \<Longrightarrow> t < 2 \<Longrightarrow> \<lfloor>t / 2\<rfloor> = 0"
  "2 \<le> t \<Longrightarrow> t < 4 \<Longrightarrow> \<lfloor>t / 2\<rfloor> = 1"
  "4 \<le> t \<Longrightarrow> t < 6 \<Longrightarrow> \<lfloor>t / 2\<rfloor> = 2"
  by (simp_all add: floor_unique)

lemma sector_values:
  "0 \<le> t \<Longrightarrow> t < 1 \<Longrightarrow> rho_r t = 1 \<and> rho_g t = tri t \<and> rho_b t = 0"
  "1 \<le> t \<Longrightarrow> t < 2 \<Longrightarrow> rho_r t = tri t \<and> rho_g t = 1 \<and> rho_b t = 0"
  "2 \<le> t \<Longrightarrow> t < 3 \<Longrightarrow> rho_r t = 0 \<and> rho_g t = 1 \<and> rho_b t = tri t"
  "3 \<le> t \<Longrightarrow> t < 4 \<Longrightarrow> rho_r t = 0 \<and> rho_g t = tri t \<and> rho_b t = 1"
  "4 \<le> t \<Longrightarrow> t < 5 \<Longrightarrow> rho_r t = tri t \<and> rho_g t = 0 \<and> rho_b t = 1"
  "5 \<le> t \<Longrightarrow> t < 6 \<Longrightarrow> rho_r t = 1 \<and> rho_g t = 0 \<and> rho_b t = tri t"
  by (simp_all add: rho_r_def rho_g_def rho_b_def tri_def floor_half_sector)

lemma near_shift: "near a x d \<Longrightarrow> \<bar>x - y\<bar> \<le> d' \<Longrightarrow> d + d' \<le> d'' \<Longrightarrow> near a y d''"
  unfolding near_def by linarith

lemma sector_near:
  assumes hh: "finite_num hh" "0 \<le> val hh" "val hh < 6"
    and c: "near c C d" and x: "near x (C * tri (val hh)) d" and d0: "0 \<le> d"
  shows "\<exists>vr vg vb.
     (if num_le (Fin 0) hh \<and> num_lt hh (Fin 1) then (c, x, Fin 0)
      else if num_le (Fin 1) hh \<and> num_lt hh (Fin 2) then (x, c, Fin 0)
      else if num_le (Fin 2) hh \<and> num_lt hh (Fin 3) then (Fin 0, c, x)
      else if num_le (Fin 3) hh \<and> num_lt hh (Fin 4) then (Fin 0, x, c)
      else if num_le (Fin 4) hh \<and> num_lt hh (Fin 5) then (x, Fin 0, c)
      else if num_le (Fin 5) hh \<and> num_lt hh (Fin 6) then (c, Fin 0, x)
      else (Fin 0, Fin 0, Fin 0)) = (vr, vg, vb)
     \<and> near vr (C * rho_r (val hh)) d \<and> near vg (C * rho_g (val hh)) d
     \<and> near vb (C * rho_b (val hh)) d"
proof -
  define t where "t = val hh"
  have le: "num_le (Fin k) hh \<longleftrightarrow> k \<le> t" for k
    using num_le_val[of "Fin k" hh] hh(1) by (simp add: t_def)
  have lt: "num_lt hh (Fin k) \<longleftrightarrow> t < k" for k
    using num_lt_val[of hh "Fin k"] hh(1) by (simp add: t_def)
  have z: "near (Fin 0) (C * 0) d" using d0 by (simp add: near_def)
  have c1: "near c (C * 1) d" using c by simp
  note x' = x[folded t_def]
  define rgb where "rgb =
     (if num_le (Fin 0) hh \<and> num_lt hh (Fin 1) then (c, x, Fin 0)
      else if num_le (Fin 1) hh \<and> num_lt hh (Fin 2) then (x, c, Fin 0)
      else if num_le (Fin 2) hh \<and> num_lt hh (Fin 3) then (Fin 0, c, x)
      else if num_le (Fin 3) hh \<and> num_lt hh (Fin 4) then (Fin 0, x, c)
      else if num_le (Fin 4) hh \<and> num_lt hh (Fin 5) then (x, Fin 0, c)
      else if num_le (Fin 5) hh \<and> num_lt hh (Fin 6) then (c, Fin 0, x)
      else (Fin 0, Fin 0, Fin 0))"
  consider "0 \<le> t" "t < 1" | "1 \<le> t" "t < 2" | "2 \<le> t" "t < 3" | "3 \<le> t" "t < 4"
    | "4 \<le> t" "t < 5" | "5 \<le> t" "t < 6"
    using hh(2,3) unfolding t_def by linarith
  then have "\<exists>vr vg vb. rgb = (vr, vg, vb)
     \<and> near vr (C * rho_r t) d \<and> near vg (C * rho_g t) d \<and> near vb (C * rho_b t) d"
  proof cases
    case 1
    then have "rgb = (c, x, Fin 0)" unfolding rgb_def le lt by simp
    then show ?thesis using sector_values(1)[OF 1] z c1 x' by simp
  next
    case 2
    then have "rgb = (x, c, Fin 0)" unfolding rgb_def le lt by simp
    then show ?thesis using sector_values(2)[OF 2] z c1 x' by simp
  next
    case 3
    then have "rgb = (Fin 0, c, x)" unfolding rgb_def le lt by simp
    then show ?thesis using sector_values(3)[OF 3] z c1 x' by simp
  next
    case 4
    then have "rgb = (Fin 0, x, c)" unfolding rgb_def le lt by simp
    then show ?thesis using sector_values(4)[OF 4] z c1 x' by simp
  next
    case 5
    then have "rgb = (x, Fin 0, c)" unfolding rgb_def le lt by simp
    then show ?thesis using sector_values(5)[OF 5] z c1 x' by simp
  next
    case 6
    then have "rgb = (c, Fin 0, x)" unfolding rgb_def le lt by simp
    then show ?thesis using sector_values(6)[OF 6] z c1 x' by simp
  qed
  then show ?thesis unfolding rgb_def t_def .
qed

lemma round_byte:
  assumes "near p (of_nat n) (pow2 (- 15))" "n \<le> 255"
  shows "num_eq (Math_round p) (num n)
    \<and> toHex (Math_round p) = [digit_char (n div 16), digit_char (n mod 16)]"
proof -
  have f: "finite_num p" "\<bar>val p - of_nat n\<bar> \<le> pow2 (- 15)"
    using assms(1) by (simp_all add: near_def)
  have "pow2 (- 15) \<le> 1 / 4" by (simp add: pow2_eval)
  then have b: "of_int (int n) \<le> val p + 1 / 2" "val p + 1 / 2 < of_int (int n) + 1"
    using f(2) by simp_all
  have k: "\<lfloor>val p + 1 / 2\<rfloor> = int n" by (rule floor_unique[OF b])
  have "Math_round p = NZero \<and> n = 0 \<or> Math_round p = Fin (of_nat n)"
  proof (cases p)
    case NZero
    then show ?thesis using k by simp
  next
    case (Fin q)
    then show ?thesis using k by (simp add: Let_def)
  qed (use f(1) in simp_all)
  then show ?thesis
  proof
    assume "Math_round p = NZero \<and> n = 0"
    then show ?thesis by (simp add: toHex_NZero num_def)
  next
    assume "Math_round p = Fin (of_nat n)"
    then show ?thesis using toHex_byte[OF assms(2)] by (simp add: num_def)
  qed
qed

lemma channel_near:
  assumes v: "near v (C * rho t) (pow2 (- 26))" and m: "near m M (pow2 (- 26))"
    and lip: "\<bar>rho t - rho H\<bar> \<le> \<bar>t - H\<bar>" and tH: "\<bar>t - H\<bar> \<le> pow2 (- 29)"
    and C: "0 \<le> C" "C \<le> 1" and rho: "0 \<le> rho H" "rho H \<le> 1" and M: "\<bar>M\<bar> \<le> 1"
  shows "near (num_mul (num_add v m) (Fin 255)) (255 * (C * rho H + M)) (pow2 (- 15))"
proof -
  have "C * rho t - C * rho H = C * (rho t - rho H)" by (simp add: algebra_simps)
  then have "\<bar>C * rho t - C * rho H\<bar> = C * \<bar>rho t - rho H\<bar>"
    using C(1) by (simp add: abs_mult)
  also have "\<dots> \<le> 1 * \<bar>t - H\<bar>"
    by (intro mult_mono) (use C lip in simp_all)
  finally have sh: "\<bar>C * rho t - C * rho H\<bar> \<le> pow2 (- 29)" using tH by simp
  have v': "near v (C * rho H) (pow2 (- 25))"
    by (rule near_shift[OF v sh]) (simp add: pow2_eval)
  have p: "0 \<le> C * rho H" "C * rho H \<le> 1"
    using C rho by (simp_all add: mult_le_one)
  have s: "near (num_add v m) (C * rho H + M) (pow2 (- 24))"
    by (rule near_add[OF v' m, where e = 2]) (use p M in \<open>simp_all add: pow2_eval\<close>)
  have X: "\<bar>C * rho H + M\<bar> \<le> 2" using p M by linarith
  have "near (num_mul (num_add v m) (Fin 255)) ((C * rho H + M) * 255) (pow2 (- 15))"
    by (rule near_mul[OF s near_Fin X, where Y = 255 and e = 9]) (simp_all add: pow2_eval)
  then show ?thesis by (simp add: mult.commute)
qed

lemma hsl_channels_near:
  assumes l: "near l (100 * Lx) (pow2 (- 43))" and s: "near s (100 * S) (pow2 (- 22))"
    and h: "near h (60 * H) (pow2 (- 24))" and h0: "0 \<le> val h"
    and r: "0 \<le> Lx" "Lx \<le> 1" "0 \<le> S" "S \<le> 1" "0 \<le> H" "H \<le> 6 - 1 / 255"
  defines "C \<equiv> (1 - \<bar>2 * Lx - 1\<bar>) * S"
  shows "\<exists>pr pg pb. hsl_channels h s l = (Math_round pr, Math_round pg, Math_round pb)
    \<and> near pr (255 * (C * rho_r H + (Lx - C / 2))) (pow2 (- 15))
    \<and> near pg (255 * (C * rho_g H + (Lx - C / 2))) (pow2 (- 15))
    \<and> near pb (255 * (C * rho_b H + (Lx - C / 2))) (pow2 (- 15))"
proof -
  define s1 where "s1 = num_div s (Fin 100)"
  define l1 where "l1 = num_div l (Fin 100)"
  define c where "c = num_mul (num_sub (Fin 1) (Math_abs (num_sub (num_mul (Fin 2) l1) (Fin 1)))) s1"
  define hh where "hh = num_div h (Fin 60)"
  define w where "w = num_sub (Fin 1) (Math_abs (num_sub (num_rem hh (Fin 2)) (Fin 1)))"
  define x where "x = num_mul c w"
  define m where "m = num_sub l1 (num_div c (Fin 2))"
  define rgb where "rgb =
     (if num_le (Fin 0) hh \<and> num_lt hh (Fin 1) then (c, x, Fin 0)
      else if num_le (Fin 1) hh \<and> num_lt hh (Fin 2) then (x, c, Fin 0)
      else if num_le (Fin 2) hh \<and> num_lt hh (Fin 3) then (Fin 0, c, x)
      else if num_le (Fin 3) hh \<and> num_lt hh (Fin 4) then (Fin 0, x, c)
      else if num_le (Fin 4) hh \<and> num_lt hh (Fin 5) then (x, Fin 0, c)
      else if num_le (Fin 5) hh \<and> num_lt hh (Fin 6) then (c, Fin 0, x)
      else (Fin 0, Fin 0, Fin 0))"
  define ch where "ch = (\<lambda>v. num_mul (num_add v m) (Fin 255))"
  have chan: "hsl_channels h s l =
      (case rgb of (r, g, b) \<Rightarrow> (Math_round (ch r), Math_round (ch g), Math_round (ch b)))"
    unfolding hsl_channels_def Let_def rgb_def ch_def m_def x_def w_def hh_def c_def l1_def s1_def
    by (rule refl)
  have s1: "near s1 S (pow2 (- 28))"
    unfolding s1_def using unit_near[of s 100 S "pow2 (- 22)" "pow2 (- 28)"] s r
    by (simp add: pow2_eval)
  have l1: "near l1 Lx (pow2 (- 49))"
    unfolding l1_def using unit_near[of l 100 Lx "pow2 (- 43)" "pow2 (- 49)"] l r
    by (simp add: pow2_eval)
  have K: "0 \<le> 1 - \<bar>2 * Lx - 1\<bar>" "1 - \<bar>2 * Lx - 1\<bar> \<le> 1" using r by simp_all
  have C: "0 \<le> C" "C \<le> 1" unfolding C_def using K r by (simp_all add: mult_le_one)
  have C2: "C \<le> 1 - \<bar>2 * Lx - 1\<bar>" unfolding C_def using K r by (simp add: mult_left_le)
  have c: "near c C (pow2 (- 27))"
    unfolding c_def C_def by (rule chroma_near[OF l1 s1 r(1-4)])
  have m: "near m (Lx - C / 2) (pow2 (- 26))"
    unfolding m_def by (rule offset_near[OF l1 c r(1,2) C])
  have M: "\<bar>Lx - C / 2\<bar> \<le> 1" using r C by simp
  have H60: "\<bar>60 * H\<bar> \<le> 360" using r by simp
  have "near hh (60 * H / 60) (pow2 (- 29))"
    unfolding hh_def
    by (rule near_div[OF h near_Fin H60, where ?y0.0 = 60 and e = 3]) (simp_all add: pow2_eval)
  then have hh: "near hh H (pow2 (- 29))" by simp
  have fh: "finite_num h" using h by (simp add: near_def)
  have "\<bar>val h - 60 * H\<bar> \<le> pow2 (- 24)" using h by (simp add: near_def)
  moreover have "pow2 (- 24) \<le> 1" by (simp add: pow2_eval)
  ultimately have "val h \<le> 361" using r by linarith
  then have "\<bar>val h / val (Fin 60)\<bar> \<le> 1024" using h0 by simp
  from div_small[OF fh _ _ this]
  have vhh: "val hh = rval (val h / 60)" unfolding hh_def by simp
  have hh0: "0 \<le> val hh" unfolding vhh using h0 by (simp add: rval_nonneg)
  have tH: "\<bar>val hh - H\<bar> \<le> pow2 (- 29)" using hh by (simp add: near_def)
  have "pow2 (- 29) < 1 / 255" by (simp add: pow2_eval)
  then have hh6: "val hh < 6" using tH r by linarith
  have fhh: "finite_num hh" using hh by (simp add: near_def)
  have w: "near w (tri (val hh)) (pow2 (- 51))"
    unfolding w_def by (rule weight_near[OF fhh hh0 hh6])
  have "of_int \<lfloor>val hh / 2\<rfloor> \<le> val hh / 2" "val hh / 2 < of_int \<lfloor>val hh / 2\<rfloor> + 1"
    by linarith+
  then have T: "\<bar>tri (val hh)\<bar> \<le> 1" unfolding tri_def by linarith
  have Ca: "\<bar>C\<bar> \<le> 1" using C by simp
  have x: "near x (C * tri (val hh)) (pow2 (- 26))"
    unfolding x_def by (rule near_mul[OF c w Ca T, where e = 1]) (simp_all add: pow2_eval)
  have c': "near c C (pow2 (- 26))" by (rule near_weaken[OF c]) simp
  obtain vr vg vb where v: "rgb = (vr, vg, vb)"
    "near vr (C * rho_r (val hh)) (pow2 (- 26))" "near vg (C * rho_g (val hh)) (pow2 (- 26))"
    "near vb (C * rho_b (val hh)) (pow2 (- 26))"
    using sector_near[OF fhh hh0 hh6 c' x] unfolding rgb_def by auto
  have pr: "near (ch vr) (255 * (C * rho_r H + (Lx - C / 2))) (pow2 (- 15))"
    unfolding ch_def
    by (rule channel_near[OF v(2) m rho_lipschitz(1) tH C rho_range(1,2) M])
  have pg: "near (ch vg) (255 * (C * rho_g H + (Lx - C / 2))) (pow2 (- 15))"
    unfolding ch_def
    by (rule channel_near[OF v(3) m rho_lipschitz(2) tH C rho_range(3,4) M])
  have pb: "near (ch vb) (255 * (C * rho_b H + (Lx - C / 2))) (pow2 (- 15))"
    unfolding ch_def
    by (rule channel_near[OF v(4) m rho_lipschitz(3) tH C rho_range(5,6) M])
  have "hsl_channels h s l = (Math_round (ch vr), Math_round (ch vg), Math_round (ch vb))"
    by (simp add: chan v(1))
  then show ?thesis using pr pg pb by blast
qed

section \<open>rgbToHsl on bytes\<close>

lemma byte_frac:
  assumes "R \<le> 255"
  shows "near (num_div (num R) (Fin 255)) (of_nat R / 255) (pow2 (- 53))"
    and "val (num_div (num R) (Fin 255)) = rval (of_nat R / 255)"
proof -
  have R: "(of_nat R :: rat) \<le> 255" using assms by simp
  have X: "\<bar>of_nat R :: rat\<bar> \<le> 255" using R by simp
  have n: "near (num R) (of_nat R) 0" by (simp add: num_def)
  show "near (num_div (num R) (Fin 255)) (of_nat R / 255) (pow2 (- 53))"
    by (rule near_div[OF n near_Fin X, where ?y0.0 = 255 and e = 0]) (simp_all add: pow2_eval)
  have "\<bar>val (num R) / val (Fin 255)\<bar> \<le> 1024" using R by (simp add: num_def)
  from div_small(2)[OF _ _ _ this]
  show "val (num_div (num R) (Fin 255)) = rval (of_nat R / 255)" by (simp add: num_def)
qed

lemma byte_frac_mono:
  assumes "R \<le> G" "G \<le> 255"
  shows "val (num_div (num R) (Fin 255)) \<le> val (num_div (num G) (Fin 255))"
proof -
  have "(of_nat R :: rat) / 255 \<le> of_nat G / 255" using assms(1) by simp
  then show ?thesis using byte_frac(2)[of R] byte_frac(2)[of G] assms by (simp add: rval_mono)
qed

lemma byte_frac_strict:
  assumes "R < G" "G \<le> 255"
  shows "val (num_div (num R) (Fin 255)) < val (num_div (num G) (Fin 255))"
proof -
  have "R + 1 \<le> G" using assms(1) by simp
  then have "(of_nat (R + 1) :: rat) \<le> of_nat G" by (simp only: of_nat_le_iff)
  then have g: "(of_nat R :: rat) / 255 + 1 / 255 \<le> of_nat G / 255" by simp
  have a: "\<bar>val (num_div (num R) (Fin 255)) - of_nat R / 255\<bar> \<le> pow2 (- 53)"
    using byte_frac(1)[of R] assms by (simp add: near_def)
  have b: "\<bar>val (num_div (num G) (Fin 255)) - of_nat G / 255\<bar> \<le> pow2 (- 53)"
    using byte_frac(1)[of G] assms by (simp add: near_def)
  have "2 * pow2 (- 53) < 1 / 255" by (simp add: pow2_eval)
  then show ?thesis using a b g by linarith
qed

lemma Math_max3:
  assumes "finite_num a" "finite_num b" "finite_num c"
  shows "finite_num (Math_max [a, b, c])"
    and "val (Math_max [a, b, c]) = max (val a) (max (val b) (val c))"
proof -
  have n: "NaN \<notin> set [a, b, c]" using assms by auto
  have s1: "max_step NInf a = a" using assms(1) by (cases a) (simp_all add: max_step_def)
  have s: "finite_num (max_step u v) \<and> val (max_step u v) = max (val u) (val v)"
    if "finite_num u" "finite_num v" for u v
    using that by (cases u; cases v) (auto simp: max_step_def)
  have "Math_max [a, b, c] = max_step (max_step a b) c"
    using n by (simp add: Math_max_def s1 del: set_simps)
  then show "finite_num (Math_max [a, b, c])"
    and "val (Math_max [a, b, c]) = max (val a) (max (val b) (val c))"
    using s[OF assms(1,2)] s[of "max_step a b" c] assms(3) by (simp_all add: max.assoc)
qed

lemma Math_min3:
  assumes "finite_num a" "finite_num b" "finite_num c"
  shows "finite_num (Math_min [a, b, c])"
    and "val (Math_min [a, b, c]) = min (val a) (min (val b) (val c))"
proof -
  have n: "NaN \<notin> set [a, b, c]" using assms by auto
  have s1: "min_step PInf a = a" using assms(1) by (cases a) (simp_all add: min_step_def)
  have s: "finite_num (min_step u v) \<and> val (min_step u v) = min (val u) (val v)"
    if "finite_num u" "finite_num v" for u v
    using that by (cases u; cases v) (auto simp: min_step_def)
  have "Math_min [a, b, c] = min_step (min_step a b) c"
    using n by (simp add: Math_min_def s1 del: set_simps)
  then show "finite_num (Math_min [a, b, c])"
    and "val (Math_min [a, b, c]) = min (val a) (min (val b) (val c))"
    using s[OF assms(1,2)] s[of "min_step a b" c] assms(3) by (simp_all add: min.assoc)
qed

lemma mono_rval: "mono rval"
  by (rule monoI) (rule rval_mono)

lemma byte_max_near:
  assumes "R \<le> 255" "G \<le> 255" "B \<le> 255"
  defines "mx \<equiv> Math_max [num_div (num R) (Fin 255), num_div (num G) (Fin 255), num_div (num B) (Fin 255)]"
  shows "finite_num mx" "val mx = val (num_div (num (max R (max G B))) (Fin 255))"
    "near mx (of_nat (max R (max G B)) / 255) (pow2 (- 53))"
proof -
  have f: "finite_num (num_div (num R) (Fin 255))" "finite_num (num_div (num G) (Fin 255))"
    "finite_num (num_div (num B) (Fin 255))"
    using byte_frac(1) assms(1-3) by (simp_all add: near_def)
  show fm: "finite_num mx" unfolding mx_def by (rule Math_max3(1)[OF f])
  have "val mx = max (rval (of_nat R / 255)) (max (rval (of_nat G / 255)) (rval (of_nat B / 255)))"
    unfolding mx_def using Math_max3(2)[OF f] assms(1-3) by (simp add: byte_frac(2))
  also have "\<dots> = rval (max (of_nat R / 255) (max (of_nat G / 255) (of_nat B / 255)))"
    by (simp add: max_of_mono[OF mono_rval])
  also have "max (of_nat R / 255) (max (of_nat G / 255) (of_nat B / 255))
      = (of_nat (max R (max G B)) :: rat) / 255"
    by (simp add: max_def)
  finally have v: "val mx = rval (of_nat (max R (max G B)) / 255)" .
  have le: "max R (max G B) \<le> 255" using assms(1-3) by simp
  show "val mx = val (num_div (num (max R (max G B))) (Fin 255))"
    using v byte_frac(2)[OF le] by simp
  then show "near mx (of_nat (max R (max G B)) / 255) (pow2 (- 53))"
    using byte_frac(1)[OF le] fm by (simp add: near_def)
qed

lemma byte_min_near:
  assumes "R \<le> 255" "G \<le> 255" "B \<le> 255"
  defines "mn \<equiv> Math_min [num_div (num R) (Fin 255), num_div (num G) (Fin 255), num_div (num B) (Fin 255)]"
  shows "finite_num mn" "val mn = val (num_div (num (min R (min G B))) (Fin 255))"
    "near mn (of_nat (min R (min G B)) / 255) (pow2 (- 53))"
proof -
  have f: "finite_num (num_div (num R) (Fin 255))" "finite_num (num_div (num G) (Fin 255))"
    "finite_num (num_div (num B) (Fin 255))"
    using byte_frac(1) assms(1-3) by (simp_all add: near_def)
  show fm: "finite_num mn" unfolding mn_def by (rule Math_min3(1)[OF f])
  have "val mn = min (rval (of_nat R / 255)) (min (rval (of_nat G / 255)) (rval (of_nat B / 255)))"
    unfolding mn_def using Math_min3(2)[OF f] assms(1-3) by (simp add: byte_frac(2))
  also have "\<dots> = rval (min (of_nat R / 255) (min (of_nat G / 255) (of_nat B / 255)))"
    by (simp add: min_of_mono[OF mono_rval])
  also have "min (of_nat R / 255) (min (of_nat G / 255) (of_nat B / 255))
      = (of_nat (min R (min G B)) :: rat) / 255"
    by (simp add: min_def)
  finally have v: "val mn = rval (of_nat (min R (min G B)) / 255)" .
  have le: "min R (min G B) \<le> 255" using assms(1-3) by simp
  show "val mn = val (num_div (num (min R (min G B))) (Fin 255))"
    using v byte_frac(2)[OF le] by simp
  then show "near mn (of_nat (min R (min G B)) / 255) (pow2 (- 53))"
    using byte_frac(1)[OF le] fm by (simp add: near_def)
qed

lemma near_div_val:
  assumes "near a x da" "near b y db" "\<bar>x\<bar> \<le> X" "y0 \<le> y" "db < y0"
    and "(X + da) / (y0 - db) \<le> 1024"
  shows "val (num_div a b) = rval (val a / val b)" "0 < val b"
proof -
  have f: "finite_num a" "finite_num b" "\<bar>val a - x\<bar> \<le> da" "\<bar>val b - y\<bar> \<le> db"
    using assms(1,2) by (simp_all add: near_def)
  note de = div_err[OF f(3,4) assms(3,4,5)]
  show "0 < val b" by (rule de(3))
  have "\<bar>val a / val b\<bar> \<le> 1024" using de(2) assms(6) by linarith
  moreover have "val b \<noteq> 0" using de(3) by simp
  ultimately show "val (num_div a b) = rval (val a / val b)"
    using div_small[OF f(1,2)] by simp
qed

lemma near_sub_val:
  assumes "near a x da" "near b y db" "\<bar>x - y\<bar> + da + db \<le> 1024"
  shows "val (num_sub a b) = rval (val a - val b)"
proof -
  have f: "finite_num a" "finite_num b" "\<bar>val a - x\<bar> \<le> da" "\<bar>val b - y\<bar> \<le> db"
    using assms(1,2) by (simp_all add: near_def)
  have "\<bar>val a - val b\<bar> \<le> 1024" using f(3,4) assms(3) by linarith
  from sub_small[OF f(1,2) this] show ?thesis by simp
qed

lemma near_mul_val:
  assumes "near a x da" "near b y db" "\<bar>x\<bar> \<le> X" "\<bar>y\<bar> \<le> Y" "(X + da) * (Y + db) \<le> 1024"
  shows "val (num_mul a b) = rval (val a * val b)"
proof -
  have f: "finite_num a" "finite_num b" "\<bar>val a - x\<bar> \<le> da" "\<bar>val b - y\<bar> \<le> db"
    using assms(1,2) by (simp_all add: near_def)
  note me = mul_err[OF f(3,4) assms(3,4)]
  have "\<bar>val a * val b\<bar> \<le> 1024" using me(2) assms(5) by linarith
  from mul_small[OF f(1,2) this] show ?thesis by simp
qed

lemma num_rem_6_near:
  assumes "near q Q d0" "\<bar>Q\<bar> \<le> 1" "d0 \<le> 1 / 2"
  shows "near (num_rem q (Fin 6)) Q (d0 + pow2 (- 53))"
    and "0 \<le> val q \<Longrightarrow> 0 \<le> val (num_rem q (Fin 6))"
proof -
  have f: "finite_num q" "\<bar>val q - Q\<bar> \<le> d0" using assms(1) by (simp_all add: near_def)
  have b: "\<bar>val q\<bar> \<le> 3 / 2" using f(2) assms(2,3) by linarith
  have "\<lfloor>val q / 6\<rfloor> = 0" if "0 \<le> val q" using that b by (intro floor_unique) simp_all
  moreover have "\<lceil>val q / 6\<rceil> = 0" if "val q < 0" using that b by (intro ceiling_unique) simp_all
  ultimately have t: "trunc (val q / 6) = 0" by (simp add: trunc_def)
  have nr: "num_rem q (Fin 6) = (if is_zero q then q else rnd (val q))"
  proof (cases q)
    case (Fin x)
    with t have "trunc (x / 6) = 0" by simp
    then show ?thesis using Fin by (simp add: num_rem_def Let_def)
  qed (use f(1) in \<open>simp_all add: num_rem_def\<close>)
  have p: "0 < pow2 (- 53)" by (rule pow2_pos)
  have "near (num_rem q (Fin 6)) Q (d0 + pow2 (- 53)) \<and> (0 \<le> val q \<longrightarrow> 0 \<le> val (num_rem q (Fin 6)))"
  proof (cases "is_zero q")
    case True
    have "\<bar>val q - Q\<bar> \<le> d0 + pow2 (- 53)" using f(2) p by linarith
    then show ?thesis using nr f(1) True by (simp add: near_def)
  next
    case False
    have "\<bar>val q\<bar> \<le> 1024" using b by simp
    then have r: "finite_num (rnd (val q))" "val (rnd (val q)) = rval (val q)"
      using rnd_val[OF small_pow2] by simp_all
    have "\<bar>rval (val q) - val q\<bar> \<le> pow2 (- 53)" using rval_err_2[of "val q"] b by simp
    then have "\<bar>rval (val q) - Q\<bar> \<le> d0 + pow2 (- 53)" using f(2) by linarith
    then show ?thesis using nr False r by (simp add: near_def rval_nonneg)
  qed
  then show "near (num_rem q (Fin 6)) Q (d0 + pow2 (- 53))"
    and "0 \<le> val q \<Longrightarrow> 0 \<le> val (num_rem q (Fin 6))" by simp_all
qed

lemma byte_rat: "n \<le> 255 \<Longrightarrow> (of_nat n :: rat) \<le> 255"
  by (metis of_nat_le_iff of_nat_numeral)

lemma exact_light_range:
  assumes "R \<le> 255" "G \<le> 255" "B \<le> 255"
  shows "0 \<le> exact_light R G B" "exact_light R G B \<le> 1"
proof -
  define Mx where "Mx = max R (max G B)"
  define Mn where "Mn = min R (min G B)"
  have "Mx \<le> 255" "Mn \<le> 255" using assms by (simp_all add: Mx_def Mn_def)
  then have "(of_nat Mx :: rat) + of_nat Mn \<le> 510" using byte_rat[of Mx] byte_rat[of Mn] by linarith
  then show "exact_light R G B \<le> 1" by (simp add: exact_light_def Mx_def Mn_def)
  show "0 \<le> exact_light R G B" by (simp add: exact_light_def)
qed

lemma exact_chroma_le:
  assumes "R \<le> 255" "G \<le> 255" "B \<le> 255"
  shows "exact_chroma R G B \<le> 1 - \<bar>2 * exact_light R G B - 1\<bar>"
    "0 \<le> exact_chroma R G B" "exact_chroma R G B \<le> 1"
proof -
  define Mx where "Mx = max R (max G B)"
  define Mn where "Mn = min R (min G B)"
  have "Mx \<le> 255" "Mn \<le> Mx" using assms by (simp_all add: Mx_def Mn_def)
  then have b: "(of_nat Mx :: rat) \<le> 255" "(of_nat Mn :: rat) \<le> of_nat Mx" "(0::rat) \<le> of_nat Mn"
    by (simp_all add: byte_rat)
  have c: "exact_chroma R G B = (of_nat Mx - of_nat Mn) / 255"
    by (simp add: exact_chroma_def Mx_def Mn_def)
  have l: "2 * exact_light R G B = (of_nat Mx + of_nat Mn) / 255"
    by (simp add: exact_light_def Mx_def Mn_def)
  show "exact_chroma R G B \<le> 1 - \<bar>2 * exact_light R G B - 1\<bar>"
    unfolding c l using b by (simp add: abs_if field_simps)
  show "0 \<le> exact_chroma R G B" "exact_chroma R G B \<le> 1"
    unfolding c using b by simp_all
qed

lemma exact_sat_range:
  assumes "R \<le> 255" "G \<le> 255" "B \<le> 255"
  shows "0 \<le> exact_sat R G B" "exact_sat R G B \<le> 1"
    "(1 - \<bar>2 * exact_light R G B - 1\<bar>) * exact_sat R G B = exact_chroma R G B"
proof -
  note c = exact_chroma_le[OF assms]
  have "0 \<le> exact_sat R G B \<and> exact_sat R G B \<le> 1
    \<and> (1 - \<bar>2 * exact_light R G B - 1\<bar>) * exact_sat R G B = exact_chroma R G B"
  proof (cases "max R (max G B) = min R (min G B)")
    case True
    then have "exact_sat R G B = 0" "exact_chroma R G B = 0"
      by (simp_all add: exact_sat_def exact_chroma_def)
    then show ?thesis by simp
  next
    case False
    then have "min R (min G B) < max R (max G B)" by (simp add: min_def max_def split: if_splits)
    then have "(of_nat (min R (min G B)) :: rat) < of_nat (max R (max G B))"
      by (simp only: of_nat_less_iff)
    then have p: "0 < exact_chroma R G B" by (simp add: exact_chroma_def)
    then have k: "0 < 1 - \<bar>2 * exact_light R G B - 1\<bar>" using c(1) by linarith
    have s: "exact_sat R G B = exact_chroma R G B / (1 - \<bar>2 * exact_light R G B - 1\<bar>)"
      using False by (simp add: exact_sat_def)
    have "0 \<le> exact_sat R G B" unfolding s using p k by simp
    moreover have "exact_sat R G B \<le> 1" unfolding s using c(1) k by simp
    moreover have "(1 - \<bar>2 * exact_light R G B - 1\<bar>) * exact_sat R G B = exact_chroma R G B"
      unfolding s using k by simp
    ultimately show ?thesis by simp
  qed
  then show "0 \<le> exact_sat R G B" "exact_sat R G B \<le> 1"
    "(1 - \<bar>2 * exact_light R G B - 1\<bar>) * exact_sat R G B = exact_chroma R G B"
    by simp_all
qed

lemma rgb_delta:
  assumes le: "R \<le> 255" "G \<le> 255" "B \<le> 255"
  defines "mx \<equiv> Math_max [num_div (num R) (Fin 255), num_div (num G) (Fin 255), num_div (num B) (Fin 255)]"
    and "mn \<equiv> Math_min [num_div (num R) (Fin 255), num_div (num G) (Fin 255), num_div (num B) (Fin 255)]"
  shows "near (num_sub mx mn) (exact_chroma R G B) (pow2 (- 51))"
    and "num_eq (num_sub mx mn) (Fin 0) \<longleftrightarrow> max R (max G B) = min R (min G B)"
    and "num_eq mx (num_div (num R) (Fin 255)) \<longleftrightarrow> R = max R (max G B)"
    and "num_eq mx (num_div (num G) (Fin 255)) \<longleftrightarrow> G = max R (max G B)"
proof -
  define Mx where "Mx = max R (max G B)"
  define Mn where "Mn = min R (min G B)"
  have M: "Mx \<le> 255" "Mn \<le> Mx" "R \<le> Mx" "G \<le> Mx" using le by (simp_all add: Mx_def Mn_def)
  have b: "(of_nat Mx :: rat) \<le> 255" "(of_nat Mn :: rat) \<le> of_nat Mx" "(0::rat) \<le> of_nat Mn"
    using M by (simp_all add: byte_rat)
  note x = byte_max_near[OF le, folded mx_def Mx_def]
  note n = byte_min_near[OF le, folded mn_def Mn_def]
  have c: "exact_chroma R G B = of_nat Mx / 255 - of_nat Mn / 255"
    by (simp add: exact_chroma_def Mx_def Mn_def diff_divide_distrib)
  have d: "near (num_sub mx mn) (of_nat Mx / 255 - of_nat Mn / 255) (pow2 (- 51))"
    by (rule near_sub[OF x(3) n(3), where e = 1]) (use b in \<open>simp_all add: pow2_eval\<close>)
  then show "near (num_sub mx mn) (exact_chroma R G B) (pow2 (- 51))" by (simp only: c)
  have fd: "finite_num (num_sub mx mn)" using d by (rule near_finite)
  have v: "val (num_sub mx mn) = rval (val mx - val mn)"
    by (rule near_sub_val[OF x(3) n(3)]) (use b in \<open>simp add: pow2_eval\<close>)
  have "num_eq (num_sub mx mn) (Fin 0) \<longleftrightarrow> Mx = Mn"
  proof (cases "Mx = Mn")
    case True
    then have "val mx = val mn" using x(2) n(2) by simp
    then have "val (num_sub mx mn) = 0" using v by simp
    then show ?thesis using True fd by (simp add: num_eq_val)
  next
    case False
    then have "Mn + 1 \<le> Mx" using M(2) by simp
    then have "(of_nat Mn :: rat) + 1 \<le> of_nat Mx" by (metis of_nat_le_iff of_nat_add of_nat_1)
    then have "1 / 255 \<le> of_nat Mx / 255 - (of_nat Mn :: rat) / 255" by (simp add: field_simps)
    moreover have "\<bar>val (num_sub mx mn) - (of_nat Mx / 255 - of_nat Mn / 255)\<bar> \<le> pow2 (- 51)"
      using d by (simp add: near_def)
    moreover have "pow2 (- 51) < 1 / 255" by (simp add: pow2_eval)
    ultimately have "0 < val (num_sub mx mn)" by linarith
    then show ?thesis using False fd by (simp add: num_eq_val)
  qed
  then show "num_eq (num_sub mx mn) (Fin 0) \<longleftrightarrow> max R (max G B) = min R (min G B)"
    by (simp only: Mx_def Mn_def)
  have fr: "finite_num (num_div (num R) (Fin 255))" "finite_num (num_div (num G) (Fin 255))"
    using byte_frac(1) le by (simp_all add: near_def)
  have "num_eq mx (num_div (num P) (Fin 255)) \<longleftrightarrow> P = Mx"
    if "P \<le> Mx" "finite_num (num_div (num P) (Fin 255))" for P
  proof (cases "P = Mx")
    case True
    then show ?thesis using x(1,2) that(2) by (simp add: num_eq_val)
  next
    case False
    then have "P < Mx" using that(1) by simp
    from byte_frac_strict[OF this M(1)] show ?thesis
      using False x(1,2) that(2) by (simp add: num_eq_val)
  qed
  from this[OF M(3) fr(1)] this[OF M(4) fr(2)]
  show "num_eq mx (num_div (num R) (Fin 255)) \<longleftrightarrow> R = max R (max G B)"
    and "num_eq mx (num_div (num G) (Fin 255)) \<longleftrightarrow> G = max R (max G B)"
    by (simp_all only: Mx_def)
qed

lemma rgb_light:
  assumes le: "R \<le> 255" "G \<le> 255" "B \<le> 255"
  defines "mx \<equiv> Math_max [num_div (num R) (Fin 255), num_div (num G) (Fin 255), num_div (num B) (Fin 255)]"
    and "mn \<equiv> Math_min [num_div (num R) (Fin 255), num_div (num G) (Fin 255), num_div (num B) (Fin 255)]"
  shows "near (num_div (num_add mx mn) (Fin 2)) (exact_light R G B) (pow2 (- 51))"
proof -
  define Mx where "Mx = max R (max G B)"
  define Mn where "Mn = min R (min G B)"
  have M: "Mx \<le> 255" "Mn \<le> 255" using le by (simp_all add: Mx_def Mn_def)
  have b: "(of_nat Mx :: rat) \<le> 255" "(of_nat Mn :: rat) \<le> 255" "(0::rat) \<le> of_nat Mn"
    "(0::rat) \<le> of_nat Mx"
    using M by (simp_all add: byte_rat)
  note x = byte_max_near[OF le, folded mx_def Mx_def]
  note n = byte_min_near[OF le, folded mn_def Mn_def]
  have s: "near (num_add mx mn) (of_nat Mx / 255 + of_nat Mn / 255) (pow2 (- 51))"
    by (rule near_add[OF x(3) n(3), where e = 2]) (use b in \<open>simp_all add: pow2_eval\<close>)
  have X: "\<bar>of_nat Mx / 255 + of_nat Mn / 255 :: rat\<bar> \<le> 2" using b by simp
  have "near (num_div (num_add mx mn) (Fin 2)) ((of_nat Mx / 255 + of_nat Mn / 255) / 2) (pow2 (- 51))"
    by (rule near_div[OF s near_Fin X, where ?y0.0 = 2 and e = 1]) (simp_all add: pow2_eval)
  moreover have "(of_nat Mx / 255 + of_nat Mn / 255) / 2 = exact_light R G B"
    by (simp add: exact_light_def Mx_def Mn_def add_divide_distrib)
  ultimately show ?thesis by simp
qed

lemma light_scaled:
  assumes "near l0 Lx (pow2 (- 51))" "0 \<le> Lx" "Lx \<le> 1"
  shows "near (num_mul l0 (Fin 100)) (100 * Lx) (pow2 (- 43))"
proof -
  have X: "\<bar>Lx\<bar> \<le> 1" "\<bar>100 :: rat\<bar> \<le> 100" using assms(2,3) by simp_all
  have "near (num_mul l0 (Fin 100)) (Lx * 100) (pow2 (- 43))"
    by (rule near_mul[OF assms(1) near_Fin X, where e = 7]) (simp_all add: pow2_eval)
  then show ?thesis by (simp add: mult.commute)
qed

lemma sat_near:
  assumes l0: "near l0 Lx (pow2 (- 51))" and d: "near d C (pow2 (- 51))"
    and r: "0 \<le> Lx" "Lx \<le> 1" "1 / 255 \<le> C" "C \<le> 1 - \<bar>2 * Lx - 1\<bar>"
  shows "near (num_mul (num_div d (num_sub (Fin 1) (Math_abs (num_sub (num_mul (Fin 2) l0) (Fin 1)))))
      (Fin 100)) (100 * (C / (1 - \<bar>2 * Lx - 1\<bar>))) (pow2 (- 22))"
proof -
  have a1: "near (num_mul (Fin 2) l0) (2 * Lx) (pow2 (- 49))"
    by (rule near_mul[OF near_Fin l0, where X = 2 and Y = 1 and e = 2])
      (use r in \<open>simp_all add: pow2_eval\<close>)
  have a2: "near (num_sub (num_mul (Fin 2) l0) (Fin 1)) (2 * Lx - 1) (pow2 (- 48))"
    by (rule near_sub[OF a1 near_Fin, where e = 1])
      (use r in \<open>simp_all add: pow2_eval\<close>)
  have a3: "near (Math_abs (num_sub (num_mul (Fin 2) l0) (Fin 1))) \<bar>2 * Lx - 1\<bar> (pow2 (- 48))"
    by (rule near_abs[OF a2])
  have a4: "near (num_sub (Fin 1) (Math_abs (num_sub (num_mul (Fin 2) l0) (Fin 1))))
      (1 - \<bar>2 * Lx - 1\<bar>) (pow2 (- 47))"
    by (rule near_sub[OF near_Fin a3, where e = 1])
      (use r in \<open>simp_all add: pow2_eval\<close>)
  have C: "\<bar>C\<bar> \<le> 1" using r by linarith
  have y0: "1 / 255 \<le> 1 - \<bar>2 * Lx - 1\<bar>" using r by linarith
  have a5: "near (num_div d (num_sub (Fin 1) (Math_abs (num_sub (num_mul (Fin 2) l0) (Fin 1)))))
      (C / (1 - \<bar>2 * Lx - 1\<bar>)) (pow2 (- 30))"
    by (rule near_div[OF d a4 C y0, where e = 8]) (simp_all add: pow2_eval)
  have "0 < 1 - \<bar>2 * Lx - 1\<bar>" using y0 by linarith
  then have S: "\<bar>C / (1 - \<bar>2 * Lx - 1\<bar>)\<bar> \<le> 1" using r(3,4) by simp
  have X: "\<bar>100 :: rat\<bar> \<le> 100" by simp
  have "near (num_mul (num_div d (num_sub (Fin 1) (Math_abs (num_sub (num_mul (Fin 2) l0) (Fin 1)))))
      (Fin 100)) (C / (1 - \<bar>2 * Lx - 1\<bar>) * 100) (pow2 (- 22))"
    by (rule near_mul[OF a5 near_Fin S X, where e = 7]) (simp_all add: pow2_eval)
  then show ?thesis by (simp add: mult.commute)
qed

lemma hue_quot:
  assumes le: "P \<le> 255" "Q \<le> 255" and d: "near d (Dq / 255) (pow2 (- 51))"
    and D: "1 \<le> Dq" "\<bar>of_nat P - of_nat Q\<bar> \<le> Dq"
  shows "near (num_div (num_sub (num_div (num P) (Fin 255)) (num_div (num Q) (Fin 255))) d)
      ((of_nat P - of_nat Q) / Dq) (pow2 (- 34))"
    and "Q \<le> P \<Longrightarrow>
      0 \<le> val (num_div (num_sub (num_div (num P) (Fin 255)) (num_div (num Q) (Fin 255))) d)"
proof -
  have b: "(of_nat P :: rat) \<le> 255" "(of_nat Q :: rat) \<le> 255" "(0::rat) \<le> of_nat P"
    "(0::rat) \<le> of_nat Q"
    using le by (simp_all add: byte_rat)
  note p = byte_frac[OF le(1)]
  note q = byte_frac[OF le(2)]
  have X: "\<bar>of_nat P / 255 - of_nat Q / 255 :: rat\<bar> \<le> 1" using b by simp
  have a: "near (num_sub (num_div (num P) (Fin 255)) (num_div (num Q) (Fin 255)))
      (of_nat P / 255 - of_nat Q / 255) (pow2 (- 51))"
    by (rule near_sub[OF p(1) q(1), where e = 1]) (use X in \<open>simp_all add: pow2_eval\<close>)
  have av: "val (num_sub (num_div (num P) (Fin 255)) (num_div (num Q) (Fin 255)))
      = rval (val (num_div (num P) (Fin 255)) - val (num_div (num Q) (Fin 255)))"
    by (rule near_sub_val[OF p(1) q(1)]) (use X in \<open>simp add: pow2_eval\<close>)
  have y0: "1 / 255 \<le> Dq / 255" using D(1) by simp
  have "near (num_div (num_sub (num_div (num P) (Fin 255)) (num_div (num Q) (Fin 255))) d)
      ((of_nat P / 255 - of_nat Q / 255) / (Dq / 255)) (pow2 (- 34))"
    by (rule near_div[OF a d X y0, where e = 8]) (simp_all add: pow2_eval)
  moreover have "(of_nat P / 255 - of_nat Q / 255) / (Dq / 255) = (of_nat P - of_nat Q) / Dq"
    by (simp add: diff_divide_distrib)
  ultimately show "near (num_div (num_sub (num_div (num P) (Fin 255)) (num_div (num Q) (Fin 255))) d)
      ((of_nat P - of_nat Q) / Dq) (pow2 (- 34))" by simp
  have dv: "val (num_div (num_sub (num_div (num P) (Fin 255)) (num_div (num Q) (Fin 255))) d)
      = rval (val (num_sub (num_div (num P) (Fin 255)) (num_div (num Q) (Fin 255))) / val d)"
    "0 < val d"
    by (rule near_div_val[OF a d X y0]; simp add: pow2_eval)+
  show "0 \<le> val (num_div (num_sub (num_div (num P) (Fin 255)) (num_div (num Q) (Fin 255))) d)"
    if "Q \<le> P"
  proof -
    have "val (num_div (num Q) (Fin 255)) \<le> val (num_div (num P) (Fin 255))"
      by (rule byte_frac_mono[OF that le(1)])
    then have "0 \<le> val (num_sub (num_div (num P) (Fin 255)) (num_div (num Q) (Fin 255)))"
      unfolding av by (intro rval_nonneg) simp
    then show ?thesis unfolding dv(1) using dv(2) by (intro rval_nonneg) simp
  qed
qed

lemma hue_scaled:
  assumes h1: "near h1 H1 (pow2 (- 33))" and r: "\<bar>H1\<bar> \<le> 5"
  shows "near (num_mul h1 (Fin 60)) (60 * H1) (pow2 (- 27))"
    and "0 \<le> val h1 \<Longrightarrow> 0 \<le> val (num_mul h1 (Fin 60))"
proof -
  have X: "\<bar>60 :: rat\<bar> \<le> 60" by simp
  have "near (num_mul h1 (Fin 60)) (H1 * 60) (pow2 (- 27))"
    by (rule near_mul[OF h1 near_Fin r X, where e = 9]) (simp_all add: pow2_eval)
  then show "near (num_mul h1 (Fin 60)) (60 * H1) (pow2 (- 27))" by (simp add: mult.commute)
  have v: "val (num_mul h1 (Fin 60)) = rval (val h1 * val (Fin 60))"
    by (rule near_mul_val[OF h1 near_Fin r X]) (simp add: pow2_eval)
  show "0 \<le> val (num_mul h1 (Fin 60))" if "0 \<le> val h1"
    unfolding v using that by (intro rval_nonneg) simp
qed

lemma hue_wrap:
  assumes h2: "near h2 (60 * H1) (pow2 (- 27))" and r: "\<bar>H1\<bar> \<le> 5"
    and sg: "0 \<le> H1 \<Longrightarrow> 0 \<le> val h2" "H1 < 0 \<Longrightarrow> H1 \<le> - (1 / 255)"
  shows "near (if num_lt h2 (Fin 0) then num_add h2 (Fin 360) else h2)
      (60 * (if H1 < 0 then H1 + 6 else H1)) (pow2 (- 24))"
    and "0 \<le> val (if num_lt h2 (Fin 0) then num_add h2 (Fin 360) else h2)"
proof -
  have f: "finite_num h2" "\<bar>val h2 - 60 * H1\<bar> \<le> pow2 (- 27)" using h2 by (simp_all add: near_def)
  have lt: "num_lt h2 (Fin 0) \<longleftrightarrow> val h2 < 0" using f(1) by (simp add: num_lt_val)
  have p: "pow2 (- 27) < 1 / 255" "pow2 (- 27) \<le> pow2 (- 24)" by (simp_all add: pow2_eval)
  have "near (if num_lt h2 (Fin 0) then num_add h2 (Fin 360) else h2)
      (60 * (if H1 < 0 then H1 + 6 else H1)) (pow2 (- 24))
    \<and> 0 \<le> val (if num_lt h2 (Fin 0) then num_add h2 (Fin 360) else h2)"
  proof (cases "H1 < 0")
    case True
    then have "60 * H1 \<le> - (60 / 255)" using sg(2) by simp
    then have neg: "val h2 < 0" using f(2) p(1) by linarith
    have a: "near (num_add h2 (Fin 360)) (60 * H1 + 360) (pow2 (- 24))"
      by (rule near_add[OF h2 near_Fin, where e = 10]) (use r in \<open>simp_all add: pow2_eval\<close>)
    then have "\<bar>val (num_add h2 (Fin 360)) - (60 * H1 + 360)\<bar> \<le> pow2 (- 24)"
      by (simp add: near_def)
    moreover have "pow2 (- 24) \<le> 1" by (simp add: pow2_eval)
    moreover have "60 \<le> 60 * H1 + 360" using r by simp
    ultimately have "0 \<le> val (num_add h2 (Fin 360))" by linarith
    moreover have "60 * H1 + 360 = 60 * (H1 + 6)" by simp
    ultimately show ?thesis using True neg lt a by simp
  next
    case False
    then have "0 \<le> val h2" using sg(1) by simp
    then show ?thesis using False lt near_weaken[OF h2 p(2)] by simp
  qed
  then show "near (if num_lt h2 (Fin 0) then num_add h2 (Fin 360) else h2)
      (60 * (if H1 < 0 then H1 + 6 else H1)) (pow2 (- 24))"
    and "0 \<le> val (if num_lt h2 (Fin 0) then num_add h2 (Fin 360) else h2)" by simp_all
qed

lemma hue_offset:
  assumes q: "near q Qx (pow2 (- 34))" and r: "\<bar>Qx\<bar> \<le> 1" and k: "2 \<le> k" "k \<le> 4"
  shows "near (if num_lt (num_mul (num_add q (Fin k)) (Fin 60)) (Fin 0)
        then num_add (num_mul (num_add q (Fin k)) (Fin 60)) (Fin 360)
        else num_mul (num_add q (Fin k)) (Fin 60))
      (60 * (Qx + k)) (pow2 (- 24))"
    and "0 \<le> val (if num_lt (num_mul (num_add q (Fin k)) (Fin 60)) (Fin 0)
        then num_add (num_mul (num_add q (Fin k)) (Fin 60)) (Fin 360)
        else num_mul (num_add q (Fin k)) (Fin 60))"
proof -
  have h1: "near (num_add q (Fin k)) (Qx + k) (pow2 (- 33))"
    by (rule near_add[OF q near_Fin, where e = 3]) (use r k in \<open>simp_all add: pow2_eval\<close>)
  have b: "\<bar>Qx + k\<bar> \<le> 5" "1 \<le> Qx + k" using r k by linarith+
  note h2 = hue_scaled(1)[OF h1 b(1)]
  have "\<bar>val (num_mul (num_add q (Fin k)) (Fin 60)) - 60 * (Qx + k)\<bar> \<le> pow2 (- 27)"
    using h2 by (simp add: near_def)
  moreover have "pow2 (- 27) \<le> 1" by (simp add: pow2_eval)
  moreover have "60 \<le> 60 * (Qx + k)" using b(2) by simp
  ultimately have nn: "0 \<le> val (num_mul (num_add q (Fin k)) (Fin 60))" by linarith
  have n0: "\<not> Qx + k < 0" using b(2) by simp
  have sg: "Qx + k < 0 \<Longrightarrow> Qx + k \<le> - (1 / 255)" using n0 by simp
  note w = hue_wrap[OF h2 b(1) nn sg]
  from w(1) show "near (if num_lt (num_mul (num_add q (Fin k)) (Fin 60)) (Fin 0)
        then num_add (num_mul (num_add q (Fin k)) (Fin 60)) (Fin 360)
        else num_mul (num_add q (Fin k)) (Fin 60))
      (60 * (Qx + k)) (pow2 (- 24))"
    by (simp only: n0 if_False)
  from w(2) show "0 \<le> val (if num_lt (num_mul (num_add q (Fin k)) (Fin 60)) (Fin 0)
        then num_add (num_mul (num_add q (Fin k)) (Fin 60)) (Fin 360)
        else num_mul (num_add q (Fin k)) (Fin 60))" .
qed

lemma hue_red:
  assumes q: "near q Qx (pow2 (- 34))" and r: "\<bar>Qx\<bar> \<le> 1"
    and sg: "0 \<le> Qx \<Longrightarrow> 0 \<le> val q" "Qx < 0 \<Longrightarrow> Qx \<le> - (1 / 255)"
  shows "near (if num_lt (num_mul (num_rem q (Fin 6)) (Fin 60)) (Fin 0)
        then num_add (num_mul (num_rem q (Fin 6)) (Fin 60)) (Fin 360)
        else num_mul (num_rem q (Fin 6)) (Fin 60))
      (60 * (if Qx < 0 then Qx + 6 else Qx)) (pow2 (- 24))"
    and "0 \<le> val (if num_lt (num_mul (num_rem q (Fin 6)) (Fin 60)) (Fin 0)
        then num_add (num_mul (num_rem q (Fin 6)) (Fin 60)) (Fin 360)
        else num_mul (num_rem q (Fin 6)) (Fin 60))"
proof -
  have p: "pow2 (- 34) \<le> 1 / 2" "pow2 (- 34) + pow2 (- 53) \<le> pow2 (- 33)"
    by (simp_all add: pow2_eval)
  have h1: "near (num_rem q (Fin 6)) Qx (pow2 (- 33))"
    by (rule near_weaken[OF num_rem_6_near(1)[OF q r p(1)] p(2)])
  have b: "\<bar>Qx\<bar> \<le> 5" using r by linarith
  note h2 = hue_scaled(1)[OF h1 b]
  have nn: "0 \<le> val (num_mul (num_rem q (Fin 6)) (Fin 60))" if "0 \<le> Qx"
    by (rule hue_scaled(2)[OF h1 b num_rem_6_near(2)[OF q r p(1) sg(1)[OF that]]])
  show "near (if num_lt (num_mul (num_rem q (Fin 6)) (Fin 60)) (Fin 0)
        then num_add (num_mul (num_rem q (Fin 6)) (Fin 60)) (Fin 360)
        else num_mul (num_rem q (Fin 6)) (Fin 60))
      (60 * (if Qx < 0 then Qx + 6 else Qx)) (pow2 (- 24))"
    by (rule hue_wrap(1)[OF h2 b nn sg(2)])
  show "0 \<le> val (if num_lt (num_mul (num_rem q (Fin 6)) (Fin 60)) (Fin 0)
        then num_add (num_mul (num_rem q (Fin 6)) (Fin 60)) (Fin 360)
        else num_mul (num_rem q (Fin 6)) (Fin 60))"
    by (rule hue_wrap(2)[OF h2 b nn sg(2)])
qed

lemma rgbToHsl_near:
  assumes le: "R \<le> 255" "G \<le> 255" "B \<le> 255"
  defines "c \<equiv> rgbToHsl (num R) (num G) (num B)"
  shows "near (hsl_l c) (100 * exact_light R G B) (pow2 (- 43))"
    and "near (hsl_s c) (100 * exact_sat R G B) (pow2 (- 22))"
    and "near (hsl_h c) (60 * exact_hue R G B) (pow2 (- 24))"
    and "0 \<le> val (hsl_h c)"
proof -
  define rt where "rt = num_div (num R) (Fin 255)"
  define gt where "gt = num_div (num G) (Fin 255)"
  define bt where "bt = num_div (num B) (Fin 255)"
  define mx where "mx = Math_max [rt, gt, bt]"
  define mn where "mn = Math_min [rt, gt, bt]"
  define d where "d = num_sub mx mn"
  define l0 where "l0 = num_div (num_add mx mn) (Fin 2)"
  define h1 where "h1 = (if num_eq mx rt then num_rem (num_div (num_sub gt bt) d) (Fin 6)
      else if num_eq mx gt then num_add (num_div (num_sub bt rt) d) (Fin 2)
      else num_add (num_div (num_sub rt gt) d) (Fin 4))"
  define hv where "hv = (if num_lt (num_mul h1 (Fin 60)) (Fin 0)
      then num_add (num_mul h1 (Fin 60)) (Fin 360) else num_mul h1 (Fin 60))"
  define Mx where "Mx = max R (max G B)"
  define Mn where "Mn = min R (min G B)"
  define Dq :: rat where "Dq = of_nat Mx - of_nat Mn"
  have c: "c = \<lparr>hsl_h = (if \<not> num_eq d (Fin 0) then hv else Fin 0),
      hsl_s = num_mul (if num_eq d (Fin 0) then Fin 0
        else num_div d (num_sub (Fin 1) (Math_abs (num_sub (num_mul (Fin 2) l0) (Fin 1))))) (Fin 100),
      hsl_l = num_mul l0 (Fin 100)\<rparr>"
    unfolding c_def rgbToHsl_def Let_def hv_def h1_def l0_def d_def mn_def mx_def rt_def gt_def bt_def
    by (rule refl)
  note dl = rgb_delta[OF le, folded rt_def gt_def bt_def, folded mx_def mn_def, folded d_def Mx_def Mn_def]
  note lt = rgb_light[OF le, folded rt_def gt_def bt_def, folded mx_def mn_def, folded l0_def]
  note lr = exact_light_range[OF le]
  note cr = exact_chroma_le[OF le]
  show "near (hsl_l c) (100 * exact_light R G B) (pow2 (- 43))"
    unfolding c using light_scaled[OF lt lr] by simp
  have M: "Mx \<le> 255" "Mn \<le> Mx" "R \<le> Mx" "G \<le> Mx" "B \<le> Mx" "Mn \<le> R" "Mn \<le> G" "Mn \<le> B"
    using le by (simp_all add: Mx_def Mn_def)
  have Mq: "(of_nat Mx :: rat) \<le> 255" "(of_nat Mn :: rat) \<le> of_nat Mx"
    "(of_nat R :: rat) \<le> of_nat Mx" "(of_nat G :: rat) \<le> of_nat Mx" "(of_nat B :: rat) \<le> of_nat Mx"
    "(of_nat Mn :: rat) \<le> of_nat R" "(of_nat Mn :: rat) \<le> of_nat G" "(of_nat Mn :: rat) \<le> of_nat B"
    "(0 :: rat) \<le> of_nat Mn"
    using M by (simp_all add: byte_rat)
  have ch: "exact_chroma R G B = Dq / 255" by (simp add: exact_chroma_def Dq_def Mx_def Mn_def)
  show "near (hsl_s c) (100 * exact_sat R G B) (pow2 (- 22))"
  proof (cases "Mx = Mn")
    case True
    have z: "\<bar>0 :: rat\<bar> \<le> 0" "\<bar>100 :: rat\<bar> \<le> 100" by simp_all
    have "near (num_mul (Fin 0) (Fin 100)) (0 * 100) (pow2 (- 22))"
      by (rule near_mul[OF near_Fin near_Fin z, where e = 0]) (simp_all add: pow2_eval)
    moreover have "exact_sat R G B = 0" using True by (simp add: exact_sat_def Mx_def Mn_def)
    ultimately show ?thesis unfolding c using True dl(2) by simp
  next
    case False
    then have "Mn + 1 \<le> Mx" using M(2) by simp
    then have "(of_nat Mn :: rat) + 1 \<le> of_nat Mx" by (metis of_nat_le_iff of_nat_add of_nat_1)
    then have y: "1 / 255 \<le> exact_chroma R G B" unfolding ch Dq_def by simp
    have "exact_sat R G B = exact_chroma R G B / (1 - \<bar>2 * exact_light R G B - 1\<bar>)"
      using False by (simp add: exact_sat_def Mx_def Mn_def)
    then show ?thesis unfolding c using False dl(2) sat_near[OF lt dl(1) lr y cr(1)] by simp
  qed
  have "near (hsl_h c) (60 * exact_hue R G B) (pow2 (- 24)) \<and> 0 \<le> val (hsl_h c)"
  proof (cases "Mx = Mn")
    case True
    then have "exact_hue R G B = 0" by (simp add: exact_hue_def Mx_def Mn_def)
    moreover have "near (Fin 0) 0 (pow2 (- 24))" by (rule near_weaken[OF near_Fin]) simp
    ultimately show ?thesis unfolding c using True dl(2) by simp
  next
    case False
    then have "Mn + 1 \<le> Mx" using M(2) by simp
    then have "(of_nat Mn :: rat) + 1 \<le> of_nat Mx" by (metis of_nat_le_iff of_nat_add of_nat_1)
    then have D1: "1 \<le> Dq" unfolding Dq_def by simp
    have D255: "Dq \<le> 255" unfolding Dq_def using Mq by linarith
    have dn: "near d (Dq / 255) (pow2 (- 51))" using dl(1) by (simp only: ch)
    have D0: "Dq \<noteq> 0" using D1 by simp
    have hd: "hsl_h c = hv" unfolding c using False dl(2) by simp
    have eh0: "exact_hue R G B =
        (if R = Mx then (if G < B then (of_nat G - of_nat B) / Dq + 6 else (of_nat G - of_nat B) / Dq)
         else if G = Mx then (of_nat B - of_nat R) / Dq + 2
         else (of_nat R - of_nat G) / Dq + 4)"
    proof -
      have "exact_hue R G B = (if Dq = 0 then 0
         else if R = Mx then (if G < B then (of_nat G - of_nat B) / Dq + 6 else (of_nat G - of_nat B) / Dq)
         else if G = Mx then (of_nat B - of_nat R) / Dq + 2
         else (of_nat R - of_nat G) / Dq + 4)"
        unfolding exact_hue_def Let_def Mx_def Mn_def Dq_def by (rule refl)
      then show ?thesis by (simp only: D0 if_False)
    qed
    have "near hv (60 * exact_hue R G B) (pow2 (- 24)) \<and> 0 \<le> val hv"
    proof -
      consider (r) "R = Mx" | (g) "R \<noteq> Mx" "G = Mx" | (b) "R \<noteq> Mx" "G \<noteq> Mx" by blast
      then show ?thesis
      proof cases
        case r
        define Qx where "Qx = ((of_nat G :: rat) - of_nat B) / Dq"
        have ab: "\<bar>(of_nat G :: rat) - of_nat B\<bar> \<le> Dq" unfolding Dq_def using Mq by linarith
        note q = hue_quot[OF le(2,3) dn D1 ab, folded gt_def bt_def Qx_def]
        have Q1: "\<bar>Qx\<bar> \<le> 1" unfolding Qx_def using ab D1 by simp
        have s1: "0 \<le> val (num_div (num_sub gt bt) d)" if "0 \<le> Qx"
        proof -
          have "0 \<le> (of_nat G :: rat) - of_nat B"
            using that D1 unfolding Qx_def by (simp add: zero_le_divide_iff)
          then have "B \<le> G" by simp
          then show ?thesis by (rule q(2))
        qed
        have lt: "Qx < 0 \<longleftrightarrow> G < B"
        proof -
          have "Qx < 0 \<longleftrightarrow> (of_nat G :: rat) - of_nat B < 0"
            using D1 unfolding Qx_def by (simp add: divide_less_0_iff)
          then show ?thesis by simp
        qed
        have s2: "Qx \<le> - (1 / 255)" if "Qx < 0"
        proof -
          have "G + 1 \<le> B" using that lt by simp
          then have "(of_nat G :: rat) + 1 \<le> of_nat B" by (metis of_nat_le_iff of_nat_add of_nat_1)
          then have "(of_nat G :: rat) - of_nat B \<le> - 1" by simp
          moreover have "0 \<le> Dq" using D1 by linarith
          ultimately have "((of_nat G :: rat) - of_nat B) / Dq \<le> (- 1) / Dq"
            by (rule divide_right_mono)
          then have "Qx \<le> - 1 / Dq" unfolding Qx_def by simp
          moreover have "- 1 / Dq \<le> - (1 / 255)" using D1 D255 by (simp add: field_simps)
          ultimately show ?thesis by linarith
        qed
        have hv': "hv = (if num_lt (num_mul (num_rem (num_div (num_sub gt bt) d) (Fin 6)) (Fin 60)) (Fin 0)
            then num_add (num_mul (num_rem (num_div (num_sub gt bt) d) (Fin 6)) (Fin 60)) (Fin 360)
            else num_mul (num_rem (num_div (num_sub gt bt) d) (Fin 6)) (Fin 60))"
          unfolding hv_def h1_def using r dl(3) by simp
        have "exact_hue R G B = (if G < B then Qx + 6 else Qx)"
          unfolding eh0 Qx_def using r by simp
        then have eh: "exact_hue R G B = (if Qx < 0 then Qx + 6 else Qx)"
          by (simp only: lt)
        show ?thesis unfolding hv' eh using hue_red[OF q(1) Q1 s1 s2] by simp
      next
        case g
        define Qx where "Qx = ((of_nat B :: rat) - of_nat R) / Dq"
        have ab: "\<bar>(of_nat B :: rat) - of_nat R\<bar> \<le> Dq" unfolding Dq_def using Mq by linarith
        note q = hue_quot[OF le(3,1) dn D1 ab, folded bt_def rt_def Qx_def]
        have Q1: "\<bar>Qx\<bar> \<le> 1" unfolding Qx_def using ab D1 by simp
        have hv': "hv = (if num_lt (num_mul (num_add (num_div (num_sub bt rt) d) (Fin 2)) (Fin 60)) (Fin 0)
            then num_add (num_mul (num_add (num_div (num_sub bt rt) d) (Fin 2)) (Fin 60)) (Fin 360)
            else num_mul (num_add (num_div (num_sub bt rt) d) (Fin 2)) (Fin 60))"
          unfolding hv_def h1_def using g dl(3,4) by simp
        have eh: "exact_hue R G B = Qx + 2"
          unfolding eh0 Qx_def using g by simp
        show ?thesis unfolding hv' eh using hue_offset[OF q(1) Q1, of 2] by simp
      next
        case b
        define Qx where "Qx = ((of_nat R :: rat) - of_nat G) / Dq"
        have ab: "\<bar>(of_nat R :: rat) - of_nat G\<bar> \<le> Dq" unfolding Dq_def using Mq by linarith
        note q = hue_quot[OF le(1,2) dn D1 ab, folded rt_def gt_def Qx_def]
        have Q1: "\<bar>Qx\<bar> \<le> 1" unfolding Qx_def using ab D1 by simp
        have hv': "hv = (if num_lt (num_mul (num_add (num_div (num_sub rt gt) d) (Fin 4)) (Fin 60)) (Fin 0)
            then num_add (num_mul (num_add (num_div (num_sub rt gt) d) (Fin 4)) (Fin 60)) (Fin 360)
            else num_mul (num_add (num_div (num_sub rt gt) d) (Fin 4)) (Fin 60))"
          unfolding hv_def h1_def using b dl(3,4) by simp
        have eh: "exact_hue R G B = Qx + 4"
          unfolding eh0 Qx_def using b by simp
        show ?thesis unfolding hv' eh using hue_offset[OF q(1) Q1, of 4] by simp
      qed
    qed
    then show ?thesis by (simp only: hd)
  qed
  then show "near (hsl_h c) (60 * exact_hue R G B) (pow2 (- 24))" and "0 \<le> val (hsl_h c)"
    by simp_all
qed

section \<open>The round trip\<close>

text \<open>
  Over the rationals the conversions are inverse to each other: for three bytes, the
  channels computed from the exact hue, saturation and lightness are the bytes.
\<close>

lemma rho_up:
  assumes "0 \<le> v" "v \<le> 1"
  shows "rho_r v = 1" "rho_g v = v" "rho_b v = 0"
    "rho_r (v + 2) = 0" "rho_g (v + 2) = 1" "rho_b (v + 2) = v"
    "rho_r (v + 4) = v" "rho_g (v + 4) = 0" "rho_b (v + 4) = 1"
  unfolding rho_r_def rho_g_def rho_b_def using assms by linarith+

lemma rho_down:
  assumes "- 1 \<le> v" "v \<le> 0"
  shows "rho_r (v + 6) = 1" "rho_g (v + 6) = 0" "rho_b (v + 6) = - v"
    "rho_r (v + 2) = - v" "rho_g (v + 2) = 1" "rho_b (v + 2) = 0"
    "rho_r (v + 4) = 0" "rho_g (v + 4) = - v" "rho_b (v + 4) = 1"
  unfolding rho_r_def rho_g_def rho_b_def using assms by linarith+

lemma mix_up:
  fixes P Q S :: nat
  assumes "S \<le> Q" "Q \<le> P" "S < P"
  defines "v \<equiv> ((of_nat Q :: rat) - of_nat S) / (of_nat P - of_nat S)"
  shows "0 \<le> v" "v \<le> 1" "(of_nat P - of_nat S) * v + of_nat S = of_nat Q"
proof -
  have o: "(of_nat S :: rat) \<le> of_nat Q" "(of_nat Q :: rat) \<le> of_nat P" "(of_nat S :: rat) < of_nat P"
    using assms(1-3) by simp_all
  show "0 \<le> v" "v \<le> 1" unfolding v_def using o by simp_all
  show "(of_nat P - of_nat S) * v + of_nat S = of_nat Q" unfolding v_def using o by simp
qed

lemma mix_down:
  fixes P Q S :: nat
  assumes "S < Q" "Q \<le> P"
  defines "v \<equiv> ((of_nat S :: rat) - of_nat Q) / (of_nat P - of_nat S)"
  shows "- 1 \<le> v" "v \<le> 0" "(of_nat P - of_nat S) * (- v) + of_nat S = of_nat Q"
    "P \<le> 255 \<Longrightarrow> v \<le> - (1 / 255)"
proof -
  have o: "(of_nat S :: rat) + 1 \<le> of_nat Q" "(of_nat Q :: rat) \<le> of_nat P"
    using assms(1,2) by (metis Suc_eq_plus1 Suc_leI of_nat_le_iff of_nat_add of_nat_1, simp)
  have p: "0 < (of_nat P :: rat) - of_nat S" using o by linarith
  show "- 1 \<le> v" "v \<le> 0" unfolding v_def using o p by (simp_all add: field_simps)
  show "(of_nat P - of_nat S) * (- v) + of_nat S = of_nat Q" unfolding v_def using p by simp
  show "v \<le> - (1 / 255)" if "P \<le> 255"
  proof -
    have "(of_nat P :: rat) \<le> 255" using that by (rule byte_rat)
    then have "(of_nat P :: rat) - of_nat S \<le> 255" by linarith
    moreover have "(of_nat S :: rat) - of_nat Q \<le> - 1" using o by linarith
    ultimately show ?thesis unfolding v_def using p by (simp add: field_simps)
  qed
qed

lemma exact_channels:
  assumes le: "R \<le> 255" "G \<le> 255" "B \<le> 255"
  shows "0 \<le> exact_hue R G B \<and> exact_hue R G B \<le> 6 - 1 / 255
    \<and> (of_nat (max R (max G B)) - of_nat (min R (min G B))) * rho_r (exact_hue R G B)
        + of_nat (min R (min G B)) = of_nat R
    \<and> (of_nat (max R (max G B)) - of_nat (min R (min G B))) * rho_g (exact_hue R G B)
        + of_nat (min R (min G B)) = of_nat G
    \<and> (of_nat (max R (max G B)) - of_nat (min R (min G B))) * rho_b (exact_hue R G B)
        + of_nat (min R (min G B)) = of_nat B"
proof -
  consider (rg) "B \<le> G" "G \<le> R" "B < R" | (rb) "G < B" "B \<le> R"
    | (gb) "R \<le> B" "B \<le> G" "R < G" | (gr) "B < R" "R < G"
    | (br) "G \<le> R" "R < B" | (bg) "R < G" "G < B" | (grey) "R = G" "G = B"
    by linarith
  then show ?thesis
  proof cases
    case rg
    have mx: "max R (max G B) = R" and mn: "min R (min G B) = B" using rg by simp_all
    have ne: "(of_nat R :: rat) - of_nat B \<noteq> 0" using rg by simp
    have H: "exact_hue R G B = (of_nat G - of_nat B) / (of_nat R - of_nat B)"
      unfolding exact_hue_def Let_def mx mn using rg ne by simp
    have o: "B \<le> G" "G \<le> R" "B < R" using rg by simp_all
    note m = mix_up[OF o]
    note rho = rho_up[OF m(1,2)]
    have hr: "0 \<le> exact_hue R G B" "exact_hue R G B \<le> 6 - 1 / 255"
      unfolding H using m(1,2) by linarith+
    have i: "(of_nat R - of_nat B) * rho_r (exact_hue R G B) + of_nat B = (of_nat R :: rat)"
      "(of_nat R - of_nat B) * rho_g (exact_hue R G B) + of_nat B = (of_nat G :: rat)"
      "(of_nat R - of_nat B) * rho_b (exact_hue R G B) + of_nat B = (of_nat B :: rat)"
      unfolding H rho using m(3) by simp_all
    show ?thesis unfolding mx mn using hr i by blast
  next
    case rb
    have mx: "max R (max G B) = R" and mn: "min R (min G B) = G" using rb by simp_all
    have ne: "(of_nat R :: rat) - of_nat G \<noteq> 0" using rb by simp
    have H: "exact_hue R G B = (of_nat G - of_nat B) / (of_nat R - of_nat G) + 6"
      unfolding exact_hue_def Let_def mx mn using rb ne by simp
    have o: "G < B" "B \<le> R" using rb by simp_all
    have P: "R \<le> 255" using le by simp
    note m = mix_down[OF o]
    note rho = rho_down[OF m(1,2)]
    have hr: "0 \<le> exact_hue R G B" "exact_hue R G B \<le> 6 - 1 / 255"
      unfolding H using m(1,2) m(4)[OF P] by linarith+
    have i: "(of_nat R - of_nat G) * rho_r (exact_hue R G B) + of_nat G = (of_nat R :: rat)"
      "(of_nat R - of_nat G) * rho_g (exact_hue R G B) + of_nat G = (of_nat G :: rat)"
      "(of_nat R - of_nat G) * rho_b (exact_hue R G B) + of_nat G = (of_nat B :: rat)"
      unfolding H rho using m(3) by simp_all
    show ?thesis unfolding mx mn using hr i by blast
  next
    case gb
    have mx: "max R (max G B) = G" and mn: "min R (min G B) = R" using gb by simp_all
    have ne: "(of_nat G :: rat) - of_nat R \<noteq> 0" using gb by simp
    have H: "exact_hue R G B = (of_nat B - of_nat R) / (of_nat G - of_nat R) + 2"
      unfolding exact_hue_def Let_def mx mn using gb ne by simp
    have o: "R \<le> B" "B \<le> G" "R < G" using gb by simp_all
    note m = mix_up[OF o]
    note rho = rho_up[OF m(1,2)]
    have hr: "0 \<le> exact_hue R G B" "exact_hue R G B \<le> 6 - 1 / 255"
      unfolding H using m(1,2) by linarith+
    have i: "(of_nat G - of_nat R) * rho_r (exact_hue R G B) + of_nat R = (of_nat R :: rat)"
      "(of_nat G - of_nat R) * rho_g (exact_hue R G B) + of_nat R = (of_nat G :: rat)"
      "(of_nat G - of_nat R) * rho_b (exact_hue R G B) + of_nat R = (of_nat B :: rat)"
      unfolding H rho using m(3) by simp_all
    show ?thesis unfolding mx mn using hr i by blast
  next
    case gr
    have mx: "max R (max G B) = G" and mn: "min R (min G B) = B" using gr by simp_all
    have ne: "(of_nat G :: rat) - of_nat B \<noteq> 0" using gr by simp
    have H: "exact_hue R G B = (of_nat B - of_nat R) / (of_nat G - of_nat B) + 2"
      unfolding exact_hue_def Let_def mx mn using gr ne by simp
    have o: "B < R" "R \<le> G" using gr by simp_all
    have P: "G \<le> 255" using le by simp
    note m = mix_down[OF o]
    note rho = rho_down[OF m(1,2)]
    have hr: "0 \<le> exact_hue R G B" "exact_hue R G B \<le> 6 - 1 / 255"
      unfolding H using m(1,2) m(4)[OF P] by linarith+
    have i: "(of_nat G - of_nat B) * rho_r (exact_hue R G B) + of_nat B = (of_nat R :: rat)"
      "(of_nat G - of_nat B) * rho_g (exact_hue R G B) + of_nat B = (of_nat G :: rat)"
      "(of_nat G - of_nat B) * rho_b (exact_hue R G B) + of_nat B = (of_nat B :: rat)"
      unfolding H rho using m(3) by simp_all
    show ?thesis unfolding mx mn using hr i by blast
  next
    case br
    have mx: "max R (max G B) = B" and mn: "min R (min G B) = G" using br by simp_all
    have ne: "(of_nat B :: rat) - of_nat G \<noteq> 0" using br by simp
    have H: "exact_hue R G B = (of_nat R - of_nat G) / (of_nat B - of_nat G) + 4"
      unfolding exact_hue_def Let_def mx mn using br ne by simp
    have o: "G \<le> R" "R \<le> B" "G < B" using br by simp_all
    note m = mix_up[OF o]
    note rho = rho_up[OF m(1,2)]
    have hr: "0 \<le> exact_hue R G B" "exact_hue R G B \<le> 6 - 1 / 255"
      unfolding H using m(1,2) by linarith+
    have i: "(of_nat B - of_nat G) * rho_r (exact_hue R G B) + of_nat G = (of_nat R :: rat)"
      "(of_nat B - of_nat G) * rho_g (exact_hue R G B) + of_nat G = (of_nat G :: rat)"
      "(of_nat B - of_nat G) * rho_b (exact_hue R G B) + of_nat G = (of_nat B :: rat)"
      unfolding H rho using m(3) by simp_all
    show ?thesis unfolding mx mn using hr i by blast
  next
    case bg
    have mx: "max R (max G B) = B" and mn: "min R (min G B) = R" using bg by simp_all
    have ne: "(of_nat B :: rat) - of_nat R \<noteq> 0" using bg by simp
    have H: "exact_hue R G B = (of_nat R - of_nat G) / (of_nat B - of_nat R) + 4"
      unfolding exact_hue_def Let_def mx mn using bg ne by simp
    have o: "R < G" "G \<le> B" using bg by simp_all
    have P: "B \<le> 255" using le by simp
    note m = mix_down[OF o]
    note rho = rho_down[OF m(1,2)]
    have hr: "0 \<le> exact_hue R G B" "exact_hue R G B \<le> 6 - 1 / 255"
      unfolding H using m(1,2) m(4)[OF P] by linarith+
    have i: "(of_nat B - of_nat R) * rho_r (exact_hue R G B) + of_nat R = (of_nat R :: rat)"
      "(of_nat B - of_nat R) * rho_g (exact_hue R G B) + of_nat R = (of_nat G :: rat)"
      "(of_nat B - of_nat R) * rho_b (exact_hue R G B) + of_nat R = (of_nat B :: rat)"
      unfolding H rho using m(3) by simp_all
    show ?thesis unfolding mx mn using hr i by blast
  next
    case grey
    then show ?thesis by (simp add: exact_hue_def)
  qed
qed

lemma channels_restored:
  assumes le: "R \<le> 255" "G \<le> 255" "B \<le> 255"
  defines "c \<equiv> rgbToHsl (num R) (num G) (num B)"
  shows "hslToHex (hsl_h c) (hsl_s c) (hsl_l c) =
    [35, digit_char (R div 16), digit_char (R mod 16), digit_char (G div 16),
     digit_char (G mod 16), digit_char (B div 16), digit_char (B mod 16)]"
proof -
  note n = rgbToHsl_near[OF le, folded c_def]
  note lr = exact_light_range[OF le]
  note sr = exact_sat_range[OF le]
  note ec = exact_channels[OF le]
  have hr: "0 \<le> exact_hue R G B" "exact_hue R G B \<le> 6 - 1 / 255" using ec by simp_all
  have t: "255 * (exact_chroma R G B * rho + (exact_light R G B - exact_chroma R G B / 2))
      = (of_nat (max R (max G B)) - of_nat (min R (min G B))) * rho + of_nat (min R (min G B))"
    for rho
    by (simp add: exact_chroma_def exact_light_def field_simps)
  have tr: "255 * (exact_chroma R G B * rho_r (exact_hue R G B)
      + (exact_light R G B - exact_chroma R G B / 2)) = of_nat R"
    and tg: "255 * (exact_chroma R G B * rho_g (exact_hue R G B)
      + (exact_light R G B - exact_chroma R G B / 2)) = of_nat G"
    and tb: "255 * (exact_chroma R G B * rho_b (exact_hue R G B)
      + (exact_light R G B - exact_chroma R G B / 2)) = of_nat B"
    unfolding t using ec by simp_all
  from hsl_channels_near[OF n(1) n(2) n(3) n(4) lr sr(1,2) hr]
  obtain pr pg pb where p: "hsl_channels (hsl_h c) (hsl_s c) (hsl_l c)
      = (Math_round pr, Math_round pg, Math_round pb)"
    "near pr (of_nat R) (pow2 (- 15))" "near pg (of_nat G) (pow2 (- 15))"
    "near pb (of_nat B) (pow2 (- 15))"
    unfolding sr(3) tr tg tb by blast
  note b = round_byte[OF p(2) le(1)] round_byte[OF p(3) le(2)] round_byte[OF p(4) le(3)]
  show ?thesis unfolding hslToHex_def p(1) using b by simp
qed

lemma hex_val_digit_char: "k < 16 \<Longrightarrow> hex_val (digit_char k) = k"
  by (simp add: hex_val_def digit_char_def)

lemma hex_pair:
  assumes "is_hex a" "is_hex b"
  shows "16 * hex_val a + hex_val b \<le> 255"
    "(16 * hex_val a + hex_val b) div 16 = hex_val a"
    "(16 * hex_val a + hex_val b) mod 16 = hex_val b"
  using hex_val_lt[OF assms(1)] hex_val_lt[OF assms(2)] by simp_all

lemma num_dist_self: "num_le (Math_abs (num_sub (num n) (num n))) (Fin 1)"
  by (simp add: num_def num_sub_Fin num_le_def)

text \<open>
  Claim C3. For a string that is 6 hexadecimal digits once a leading \<^verbatim>\<open>#\<close> is removed and
  the white space trimmed, \<^verbatim>\<open>hexToRgb\<close>, then \<^verbatim>\<open>rgbToHsl\<close>, then \<^verbatim>\<open>hslToHex\<close> give a string
  that \<^verbatim>\<open>hexToRgb\<close> reads back, and each channel of it differs from the channel of the input
  by at most 1. Indeed the result is \<^verbatim>\<open>#\<close> followed by the digits of the input in lower
  case, so the channels are equal.
\<close>

theorem hex_round_trip:
  assumes "trim (replace_leading_hash x) = [a, b, c, d, e, f]"
    and "is_hex a" "is_hex b" "is_hex c" "is_hex d" "is_hex e" "is_hex f"
  shows "\<exists>v y w. hexToRgb x = Inr v
    \<and> y = hslToHex (hsl_h (rgbToHsl (rgb_r v) (rgb_g v) (rgb_b v)))
          (hsl_s (rgbToHsl (rgb_r v) (rgb_g v) (rgb_b v)))
          (hsl_l (rgbToHsl (rgb_r v) (rgb_g v) (rgb_b v)))
    \<and> y = [35, digit_char (hex_val a), digit_char (hex_val b), digit_char (hex_val c),
           digit_char (hex_val d), digit_char (hex_val e), digit_char (hex_val f)]
    \<and> hexToRgb y = Inr w
    \<and> num_le (Math_abs (num_sub (rgb_r w) (rgb_r v))) (Fin 1)
    \<and> num_le (Math_abs (num_sub (rgb_g w) (rgb_g v))) (Fin 1)
    \<and> num_le (Math_abs (num_sub (rgb_b w) (rgb_b v))) (Fin 1)
    \<and> w = v"
proof -
  define v where "v = \<lparr>rgb_r = num (16 * hex_val a + hex_val b),
    rgb_g = num (16 * hex_val c + hex_val d), rgb_b = num (16 * hex_val e + hex_val f)\<rparr>"
  define y where "y = [35, digit_char (hex_val a), digit_char (hex_val b), digit_char (hex_val c),
    digit_char (hex_val d), digit_char (hex_val e), digit_char (hex_val f)]"
  have hx: "\<forall>z \<in> set [a, b, c, d, e, f]. is_hex z" using assms(2-7) by simp
  have v: "hexToRgb x = Inr v" unfolding v_def by (rule hexToRgb_hex6[OF assms(1) hx])
  note pr = hex_pair[OF assms(2,3)] and pg = hex_pair[OF assms(4,5)] and pb = hex_pair[OF assms(6,7)]
  have out: "hslToHex (hsl_h (rgbToHsl (rgb_r v) (rgb_g v) (rgb_b v)))
      (hsl_s (rgbToHsl (rgb_r v) (rgb_g v) (rgb_b v)))
      (hsl_l (rgbToHsl (rgb_r v) (rgb_g v) (rgb_b v))) = y"
    using channels_restored[OF pr(1) pg(1) pb(1)]
    by (simp only: v_def y_def rgb.simps pr(2,3) pg(2,3) pb(2,3))
  have k: "hex_val a < 16" "hex_val b < 16" "hex_val c < 16" "hex_val d < 16" "hex_val e < 16"
    "hex_val f < 16"
    using assms(2-7) by (simp_all add: hex_val_lt)
  have hy: "\<forall>z \<in> set [digit_char (hex_val a), digit_char (hex_val b), digit_char (hex_val c),
      digit_char (hex_val d), digit_char (hex_val e), digit_char (hex_val f)]. is_hex z"
    using k by (simp add: digit_char_hex)
  have ty: "trim (replace_leading_hash y) = [digit_char (hex_val a), digit_char (hex_val b),
      digit_char (hex_val c), digit_char (hex_val d), digit_char (hex_val e), digit_char (hex_val f)]"
    unfolding y_def using trim_hex[OF hy] by simp
  have w: "hexToRgb y = Inr v"
    using hexToRgb_hex6[OF ty hy] k by (simp only: v_def hex_val_digit_char)
  have dist: "num_le (Math_abs (num_sub (rgb_r v) (rgb_r v))) (Fin 1)"
    "num_le (Math_abs (num_sub (rgb_g v) (rgb_g v))) (Fin 1)"
    "num_le (Math_abs (num_sub (rgb_b v) (rgb_b v))) (Fin 1)"
    unfolding v_def by (simp_all only: rgb.simps num_dist_self)
  show ?thesis
    by (rule exI[of _ v], rule exI[of _ y], rule exI[of _ v])
      (intro conjI v out[symmetric] y_def w dist refl)
qed

theorem hex_round_trip_witness:
  "trim (replace_leading_hash (str ''#D4C7A6'')) = [68, 52, 67, 55, 65, 54]
   \<and> is_hex 68 \<and> is_hex 52 \<and> is_hex 67 \<and> is_hex 55 \<and> is_hex 65 \<and> is_hex 54
   \<and> (\<exists>v. hexToRgb (str ''#D4C7A6'') = Inr v
        \<and> hslToHex (hsl_h (rgbToHsl (rgb_r v) (rgb_g v) (rgb_b v)))
             (hsl_s (rgbToHsl (rgb_r v) (rgb_g v) (rgb_b v)))
             (hsl_l (rgbToHsl (rgb_r v) (rgb_g v) (rgb_b v))) = str ''#d4c7a6''
        \<and> hexToRgb (str ''#d4c7a6'') = Inr v)"
proof -
  have t: "trim (replace_leading_hash (str ''#D4C7A6'')) = [68, 52, 67, 55, 65, 54]"
    by (simp add: str_def trim_def is_ws_def)
  have h: "is_hex 68" "is_hex 52" "is_hex 67" "is_hex 55" "is_hex 65" "is_hex 54"
    by (simp_all add: is_hex_def)
  have d: "[35, digit_char (hex_val 68), digit_char (hex_val 52), digit_char (hex_val 67),
      digit_char (hex_val 55), digit_char (hex_val 65), digit_char (hex_val 54)] = str ''#d4c7a6''"
    by (simp add: hex_val_def digit_char_def str_def)
  from hex_round_trip[OF t h] obtain v y w where r: "hexToRgb (str ''#D4C7A6'') = Inr v"
    "y = hslToHex (hsl_h (rgbToHsl (rgb_r v) (rgb_g v) (rgb_b v)))
          (hsl_s (rgbToHsl (rgb_r v) (rgb_g v) (rgb_b v)))
          (hsl_l (rgbToHsl (rgb_r v) (rgb_g v) (rgb_b v)))"
    "y = [35, digit_char (hex_val 68), digit_char (hex_val 52), digit_char (hex_val 67),
      digit_char (hex_val 55), digit_char (hex_val 65), digit_char (hex_val 54)]"
    "hexToRgb y = Inr w" "w = v"
    by blast
  have "hslToHex (hsl_h (rgbToHsl (rgb_r v) (rgb_g v) (rgb_b v)))
          (hsl_s (rgbToHsl (rgb_r v) (rgb_g v) (rgb_b v)))
          (hsl_l (rgbToHsl (rgb_r v) (rgb_g v) (rgb_b v))) = str ''#d4c7a6''"
    using r(2,3) d by simp
  moreover have "hexToRgb (str ''#d4c7a6'') = Inr v" using r(3,4,5) d by simp
  ultimately show ?thesis using t h r(1) by blast
qed

end
